theory Spec2Isabelle
  imports Main
begin

section \<open>The schedule engine of fizteh-radio: data model\<close>

text \<open>
  The models package (\<^verbatim>\<open>Segment\<close>, \<^verbatim>\<open>Media\<close>, \<^verbatim>\<open>TimeFormat\<close>, \<^verbatim>\<open>MarshalJSON\<close>) and the
  schedule service (\<^verbatim>\<open>ScheduleCut\<close>, \<^verbatim>\<open>NewSegment\<close>, \<^verbatim>\<open>DeleteSegment\<close>) are embedded
  here. Go pointers are options (\<open>None\<close> is the nil pointer), a nil dereference is the
  outcome \<open>Panics\<close>, and Go's \<^verbatim>\<open>(value, error)\<close> return pairs are kept as pairs whose
  second component is \<open>None\<close> for a nil error.
\<close>

subsection \<open>Time and durations\<close>

text \<open>
  A \<^verbatim>\<open>time.Duration\<close> is a signed 64-bit count of nanoseconds, and an identifier is
  an \<^verbatim>\<open>int64\<close>. The engine compares durations and identifiers, and subtracts two
  durations only in \<^verbatim>\<open>End\<close>, on cuts that were checked to lie between zero and the
  duration of the media, where the difference cannot wrap around. Both are
  mathematical integers here.

  A \<^verbatim>\<open>time.Time\<close> is an instant together with the location it is shown in. The
  struct holds the instant (fields \<^verbatim>\<open>wall\<close> and \<^verbatim>\<open>ext\<close>) and a pointer to the
  \<^verbatim>\<open>Location\<close>. Here the instant is the count of nanoseconds since the Unix epoch,
  \<open>location\<close> is the pointer (a number that names the location object, \<open>0\<close> for the nil
  pointer that stands for UTC), and \<open>zone_offset\<close> is the offset, in seconds east of
  UTC, that the location gives at this instant. The Go operator \<^verbatim>\<open>==\<close> on two times,
  which the engine uses, compares the struct: two times are equal when they are the
  same instant and point to the same location object. Equality of this record is that
  comparison. The times of a segment come from JSON or from the store and carry no
  monotonic clock reading, which is left out.
\<close>

type_synonym Duration = int

record gotime =
  unix_nanos :: int
  zone_offset :: int
  location :: nat

definition Add :: "gotime \<Rightarrow> Duration \<Rightarrow> gotime" where
  "Add t d = t\<lparr>unix_nanos := unix_nanos t + d\<rparr>"

subsection \<open>Media and segments\<close>

text \<open>The tag list of a media is left out: the schedule engine never reads it.\<close>

record Media =
  ID_media :: "int option"
  Name :: "string option"
  Author :: "string option"
  Duration :: "Duration option"
  SourceID :: "int option"

record Segment =
  ID :: "int option"
  MediaID :: "int option"
  Start :: "gotime option"
  BeginCut :: "Duration option"
  StopCut :: "Duration option"
  Protected :: bool

text \<open>
  Modelled from the spec: the method \<^verbatim>\<open>Segment.End\<close> is called by the service but is
  not among the sources. The spec's data model gives the derived value
  \<^verbatim>\<open>end = start + (stopCut - beginCut)\<close>. The three fields it reads are pointers, so
  the result is \<open>None\<close> (a nil dereference) when one of them is nil.
\<close>

definition End :: "Segment \<Rightarrow> gotime option" where
  "End s =
     (case Start s of None \<Rightarrow> None
      | Some t \<Rightarrow>
          (case StopCut s of None \<Rightarrow> None
           | Some sc \<Rightarrow>
               (case BeginCut s of None \<Rightarrow> None
                | Some bc \<Rightarrow> Some (Add t (sc - bc)))))"

subsection \<open>Errors\<close>

text \<open>
  Go errors are values of one interface type. The sentinel errors of the storage and
  service packages are constructors, \<open>Fault n\<close> stands for any other error a
  collaborator may return, and \<open>Errorf op e\<close> is \<^verbatim>\<open>fmt.Errorf("%s: %w", op, e)\<close>, which
  wraps \<open>e\<close>. \<open>errors_Is\<close> walks the chain of wrapped errors as \<^verbatim>\<open>errors.Is\<close> does.
\<close>

datatype error =
    storage_ErrSegmentNotFound
  | storage_ErrMediaNotFound
  | service_ErrMediaNotFound
  | service_ErrCutOutOfBounds
  | service_ErrBeginAfterStop
  | service_ErrSegmentIntersection
  | service_ErrSegmentNotFound
  | Fault nat
  | Errorf string error

fun errors_Is :: "error \<Rightarrow> error \<Rightarrow> bool" where
  "errors_Is (Errorf op e) target = (Errorf op e = target \<or> errors_Is e target)"
| "errors_Is e target = (e = target)"

datatype 'a outcome = Returns 'a | Panics

section \<open>Serialising the start of a segment\<close>

text \<open>
  \<^verbatim>\<open>Segment.MarshalJSON\<close> replaces the member \<^verbatim>\<open>start\<close> by
  \<^verbatim>\<open>s.Start.Format(TimeFormat)\<close>. \<^verbatim>\<open>Time.Format\<close> belongs to the Go standard library; the
  part of it that the layout \<^verbatim>\<open>TimeFormat\<close> exercises is embedded here as the library
  documents it: the layout is cut into chunks, and each chunk appends its text.
\<close>

definition TimeFormat :: string where
  "TimeFormat = ''2006-01-02T15:04:05.999999999-07:00''"

text \<open>
  The chunks of a layout that occur in \<^verbatim>\<open>TimeFormat\<close>: the reference year \<^verbatim>\<open>2006\<close>, the
  two-digit fields \<^verbatim>\<open>01 02 15 04 05\<close>, a fractional second (a point followed by zeros
  or by nines, and then no further digit) and the zone \<^verbatim>\<open>-07:00\<close>. \<open>nextStdChunk c cs\<close>
  reads the chunk that starts the layout \<open>c # cs\<close> and says how many characters of
  \<open>cs\<close> it takes; a character that starts none of these chunks is copied. The other
  chunks of the library (names of months and days, a digit from 1 to 5 on its own,
  \<^verbatim>\<open>PM\<close>, \<^verbatim>\<open>MST\<close>, \<^verbatim>\<open>Z07:00\<close> and so on) do not occur in \<^verbatim>\<open>TimeFormat\<close> and are not
  embedded, so \<open>layout_chunks\<close> is the library's cut on \<^verbatim>\<open>TimeFormat\<close> and not on every
  layout.
\<close>

datatype chunk =
    Lit char
  | stdLongYear
  | stdZeroMonth
  | stdZeroDay
  | stdHour
  | stdZeroMinute
  | stdZeroSecond
  | stdFracSecond0 nat
  | stdFracSecond9 nat
  | stdNumColonTZ

definition isDigit :: "char \<Rightarrow> bool" where
  "isDigit c = (c \<in> set ''0123456789'')"

definition frac_run :: "char \<Rightarrow> string \<Rightarrow> nat" where
  "frac_run ch cs = length (takeWhile (\<lambda>c. c = ch) cs)"

definition frac_ends :: "nat \<Rightarrow> string \<Rightarrow> bool" where
  "frac_ends n cs = (case drop n cs of [] \<Rightarrow> True | d # _ \<Rightarrow> \<not> isDigit d)"

definition nextStdChunk :: "char \<Rightarrow> string \<Rightarrow> chunk \<times> nat" where
  "nextStdChunk c cs =
     (if c = CHR ''0'' \<and> take 1 cs = ''1'' then (stdZeroMonth, 1)
      else if c = CHR ''0'' \<and> take 1 cs = ''2'' then (stdZeroDay, 1)
      else if c = CHR ''0'' \<and> take 1 cs = ''4'' then (stdZeroMinute, 1)
      else if c = CHR ''0'' \<and> take 1 cs = ''5'' then (stdZeroSecond, 1)
      else if c = CHR ''1'' \<and> take 1 cs = ''5'' then (stdHour, 1)
      else if c = CHR ''2'' \<and> take 3 cs = ''006'' then (stdLongYear, 3)
      else if c = CHR ''-'' \<and> take 5 cs = ''07:00'' \<and> take 8 cs \<noteq> ''07:00:00''
        then (stdNumColonTZ, 5)
      else if c = CHR ''.'' \<and> 0 < frac_run CHR ''0'' cs \<and> frac_ends (frac_run CHR ''0'' cs) cs
        then (stdFracSecond0 (frac_run CHR ''0'' cs), frac_run CHR ''0'' cs)
      else if c = CHR ''.'' \<and> 0 < frac_run CHR ''9'' cs \<and> frac_ends (frac_run CHR ''9'' cs) cs
        then (stdFracSecond9 (frac_run CHR ''9'' cs), frac_run CHR ''9'' cs)
      else (Lit c, 0))"

function layout_chunks :: "string \<Rightarrow> chunk list" where
  "layout_chunks [] = []"
| "layout_chunks (c # cs) =
     (case nextStdChunk c cs of (k, n) \<Rightarrow> k # layout_chunks (drop n cs))"
  by pat_completeness auto
termination
  by (relation "measure length") auto

text \<open>
  \<^verbatim>\<open>appendInt\<close> writes an integer in decimal, padded with zeros to a width and with a
  sign when negative. \<^verbatim>\<open>appendNano\<close> writes the fraction of a second: with nines in the
  layout (\<open>trim\<close>) nothing at all when the nanoseconds are zero, and otherwise the point
  and the digits without their trailing zeros. The zone is written from the offset in
  seconds; \<open>quo\<close> is Go's integer division, which truncates towards zero.
\<close>

definition digit :: "nat \<Rightarrow> char" where
  "digit n = ''0123456789'' ! n"

function digits_of :: "nat \<Rightarrow> string" where
  "digits_of n = (if n < 10 then [digit n] else digits_of (n div 10) @ [digit (n mod 10)])"
  by pat_completeness auto
termination
  by (relation "measure id") auto

definition appendInt :: "int \<Rightarrow> nat \<Rightarrow> string" where
  "appendInt x width =
     (let ds = digits_of (nat \<bar>x\<bar>)
      in (if x < 0 then ''-'' else []) @ replicate (width - length ds) CHR ''0'' @ ds)"

definition trim_zeros :: "string \<Rightarrow> string" where
  "trim_zeros b = rev (dropWhile (\<lambda>c. c = CHR ''0'') (rev b))"

definition trim_dot :: "string \<Rightarrow> string" where
  "trim_dot b = (if b \<noteq> [] \<and> last b = CHR ''.'' then butlast b else b)"

definition appendNano :: "int \<Rightarrow> nat \<Rightarrow> bool \<Rightarrow> string" where
  "appendNano nanosec n trim =
     (if trim \<and> (n = 0 \<or> nanosec = 0) then []
      else
        (let b = CHR ''.'' # take n (appendInt nanosec 9)
         in if trim then trim_dot (trim_zeros b) else b))"

definition quo :: "int \<Rightarrow> int \<Rightarrow> int" where
  "quo a b = sgn a * sgn b * (\<bar>a\<bar> div \<bar>b\<bar>)"

definition appendZone :: "int \<Rightarrow> string" where
  "appendZone offset =
     (let zone = quo offset 60
      in (if zone < 0 then ''-'' else ''+'') @
         appendInt (\<bar>zone\<bar> div 60) 2 @ '':'' @ appendInt (\<bar>zone\<bar> mod 60) 2)"

text \<open>
  The readings of a time in its zone. The nanosecond is never negative. The calendar
  date of a day number (days since 1 January 1970, proleptic Gregorian calendar) is
  computed by eras of 400 years, in stages.
\<close>

definition local_seconds :: "gotime \<Rightarrow> int" where
  "local_seconds t = unix_nanos t div 1000000000 + zone_offset t"

definition Nanosecond :: "gotime \<Rightarrow> int" where
  "Nanosecond t = unix_nanos t mod 1000000000"

definition clock_of :: "int \<Rightarrow> int \<times> int \<times> int" where
  "clock_of sod = (sod div 3600, (sod mod 3600) div 60, sod mod 60)"

definition Clock :: "gotime \<Rightarrow> int \<times> int \<times> int" where
  "Clock t = clock_of (local_seconds t mod 86400)"

definition civil_of_month :: "int \<Rightarrow> int \<Rightarrow> int \<Rightarrow> int \<times> int \<times> int" where
  "civil_of_month y m d = (y + (if m \<le> 2 then 1 else 0), m, d)"

definition civil_of_mp :: "int \<Rightarrow> int \<Rightarrow> int \<Rightarrow> int \<times> int \<times> int" where
  "civil_of_mp y doy mp =
     civil_of_month y (if mp < 10 then mp + 3 else mp - 9) (doy - (153 * mp + 2) div 5 + 1)"

definition civil_of_doy :: "int \<Rightarrow> int \<Rightarrow> int \<times> int \<times> int" where
  "civil_of_doy y doy = civil_of_mp y doy ((5 * doy + 2) div 153)"

definition civil_of_yoe :: "int \<Rightarrow> int \<Rightarrow> int \<Rightarrow> int \<times> int \<times> int" where
  "civil_of_yoe era doe yoe =
     civil_of_doy (yoe + era * 400) (doe - (365 * yoe + yoe div 4 - yoe div 100))"

definition civil_of_doe :: "int \<Rightarrow> int \<Rightarrow> int \<times> int \<times> int" where
  "civil_of_doe era doe =
     civil_of_yoe era doe ((doe - doe div 1460 + doe div 36524 - doe div 146096) div 365)"

definition civil_from_days :: "int \<Rightarrow> int \<times> int \<times> int" where
  "civil_from_days days =
     civil_of_doe ((days + 719468) div 146097) ((days + 719468) mod 146097)"

definition Date :: "gotime \<Rightarrow> int \<times> int \<times> int" where
  "Date t = civil_from_days (local_seconds t div 86400)"

fun appendChunk :: "gotime \<Rightarrow> chunk \<Rightarrow> string" where
  "appendChunk t (Lit c) = [c]"
| "appendChunk t stdLongYear = appendInt (fst (Date t)) 4"
| "appendChunk t stdZeroMonth = appendInt (fst (snd (Date t))) 2"
| "appendChunk t stdZeroDay = appendInt (snd (snd (Date t))) 2"
| "appendChunk t stdHour = appendInt (fst (Clock t)) 2"
| "appendChunk t stdZeroMinute = appendInt (fst (snd (Clock t))) 2"
| "appendChunk t stdZeroSecond = appendInt (snd (snd (Clock t))) 2"
| "appendChunk t (stdFracSecond0 n) = appendNano (Nanosecond t) n False"
| "appendChunk t (stdFracSecond9 n) = appendNano (Nanosecond t) n True"
| "appendChunk t stdNumColonTZ = appendZone (zone_offset t)"

definition Format :: "gotime \<Rightarrow> string \<Rightarrow> string" where
  "Format t layout = concat (map (appendChunk t) (layout_chunks layout))"

text \<open>
  The value of the member \<^verbatim>\<open>start\<close> in the JSON object that \<^verbatim>\<open>MarshalJSON\<close> builds (the
  field \<^verbatim>\<open>Time\<close> of \<^verbatim>\<open>tmp\<close>). \<^verbatim>\<open>s.Start\<close> is a pointer: formatting a nil start
  panics.
\<close>

definition MarshalJSON_start :: "Segment \<Rightarrow> string outcome" where
  "MarshalJSON_start s =
     (case Start s of None \<Rightarrow> Panics | Some t \<Rightarrow> Returns (Format t TimeFormat))"

text \<open>
  Shapes of timestamps, in the notation of the spec: in a pattern each of the letters
  \<^verbatim>\<open>Y M D h m s f\<close> stands for one decimal digit, \<^verbatim>\<open>+\<close> for a sign, and every other
  character for itself. \<open>spec_timestamp_shape\<close> is the shape that the spec asks of
  every serialised timestamp.
\<close>

fun fits :: "char \<Rightarrow> char \<Rightarrow> bool" where
  "fits p c =
     (if p \<in> set ''YMDhmsf'' then isDigit c
      else if p = CHR ''+'' then c = CHR ''+'' \<or> c = CHR ''-''
      else c = p)"

definition has_shape :: "string \<Rightarrow> string \<Rightarrow> bool" where
  "has_shape pattern s = list_all2 fits pattern s"

definition spec_timestamp_shape :: "string \<Rightarrow> bool" where
  "spec_timestamp_shape s = has_shape ''YYYY-MM-DDThh:mm:ss.ffffff+hh:mm'' s"

section \<open>Collaborators: the stores and the notification sinks\<close>

text \<open>
  The interface \<^verbatim>\<open>ScheduleStorage\<close> is a record of functions over an arbitrary store
  state \<open>'st\<close>. The three queries read the state; the three commands return the new
  state with their result. \<^verbatim>\<open>Segment\<close> and \<^verbatim>\<open>ClearSchedule\<close> of the interface are not
  called by the operations embedded below and are left out. A store result is either
  an error or a value: the engine never reads the value that comes with an error.
\<close>

record 'st ScheduleStorage =
  st_ScheduleCut :: "'st \<Rightarrow> gotime \<Rightarrow> gotime \<Rightarrow> error + Segment list"
  st_SaveSegment :: "'st \<Rightarrow> Segment \<Rightarrow> (error + int) \<times> 'st"
  st_DeleteSegment :: "'st \<Rightarrow> int \<Rightarrow> error option \<times> 'st"
  st_ProtectSegment :: "'st \<Rightarrow> int \<Rightarrow> error option \<times> 'st"
  st_IsSegmentProtected :: "'st \<Rightarrow> int \<Rightarrow> error + bool"

text \<open>
  The struct \<^verbatim>\<open>Schedule\<close>: the two stores (\<^verbatim>\<open>MediaStorage\<close> has the single method
  \<^verbatim>\<open>Media\<close>). The logger has no effect on results and is left out, except that the
  arguments of a log call are evaluated, and may dereference a nil pointer. The two
  channels are the trace below.
\<close>

record 'st Schedule =
  schStorage :: "'st ScheduleStorage"
  mediaStorage :: "'st \<Rightarrow> int \<Rightarrow> error + Media"

text \<open>
  What an operation does to the outside is recorded in order: each call of a store
  command (whether or not the store then reports an error) and each send on a
  channel.
\<close>

datatype event =
    EvSave Segment
  | EvDelete int
  | EvProtect int
  | EvNotify
  | EvSend Segment

record 'st world =
  store :: 'st
  trace :: "event list"

text \<open>
  Modelled from the spec: the helpers \<^verbatim>\<open>chans.Send\<close> and \<^verbatim>\<open>chans.Notify\<close> of the
  channels package are not among the sources. The spec describes the two sinks as
  one-way and fire-and-forget: the all-segments sink is given the segment, the
  protection-changed sink a signal without payload. Here each emission is appended to
  the trace; whether the sink blocks or drops is not modelled.
\<close>

definition Send :: "Segment \<Rightarrow> 'st world \<Rightarrow> 'st world" where
  "Send segment w = w\<lparr>trace := trace w @ [EvSend segment]\<rparr>"

definition Notify :: "'st world \<Rightarrow> 'st world" where
  "Notify w = w\<lparr>trace := trace w @ [EvNotify]\<rparr>"

definition call_SaveSegment ::
  "'st Schedule \<Rightarrow> Segment \<Rightarrow> 'st world \<Rightarrow> (error + int) \<times> 'st world" where
  "call_SaveSegment s segment w =
     (case st_SaveSegment (schStorage s) (store w) segment of
        (r, st') \<Rightarrow> (r, w\<lparr>store := st', trace := trace w @ [EvSave segment]\<rparr>))"

definition call_DeleteSegment ::
  "'st Schedule \<Rightarrow> int \<Rightarrow> 'st world \<Rightarrow> error option \<times> 'st world" where
  "call_DeleteSegment s i w =
     (case st_DeleteSegment (schStorage s) (store w) i of
        (r, st') \<Rightarrow> (r, w\<lparr>store := st', trace := trace w @ [EvDelete i]\<rparr>))"

definition call_ProtectSegment ::
  "'st Schedule \<Rightarrow> int \<Rightarrow> 'st world \<Rightarrow> error option \<times> 'st world" where
  "call_ProtectSegment s i w =
     (case st_ProtectSegment (schStorage s) (store w) i of
        (r, st') \<Rightarrow> (r, w\<lparr>store := st', trace := trace w @ [EvProtect i]\<rparr>))"

section \<open>The schedule service\<close>

subsection \<open>ScheduleCut\<close>

text \<open>
  The loop of \<^verbatim>\<open>ScheduleCut\<close> over the segments the store returned: \<open>done\<close> holds the
  segments already given their protection flag (the slice is updated in place in the
  source), the second list those still to visit. An error of the store leaves the
  loop with the empty slice literal.
\<close>

fun ScheduleCut_loop ::
  "'st Schedule \<Rightarrow> 'st \<Rightarrow> Segment list \<Rightarrow> Segment list \<Rightarrow> (Segment list \<times> error option) outcome" where
  "ScheduleCut_loop s st done [] = Returns (done, None)"
| "ScheduleCut_loop s st done (segment # rest) =
     (case ID segment of
        None \<Rightarrow> Panics
      | Some i \<Rightarrow>
          (case st_IsSegmentProtected (schStorage s) st i of
             Inl err \<Rightarrow> Returns ([], Some (Errorf ''Schedule.ScheduleCut'' err))
           | Inr isProt \<Rightarrow>
               ScheduleCut_loop s st (done @ [segment\<lparr>Protected := isProt\<rparr>]) rest))"

definition ScheduleCut ::
  "'st Schedule \<Rightarrow> 'st \<Rightarrow> gotime \<Rightarrow> gotime \<Rightarrow> (Segment list \<times> error option) outcome" where
  "ScheduleCut s st start stop =
     (case st_ScheduleCut (schStorage s) st start stop of
        Inl err \<Rightarrow> Returns ([], Some (Errorf ''Schedule.ScheduleCut'' err))
      | Inr segments \<Rightarrow> ScheduleCut_loop s st [] segments)"

subsection \<open>DeleteSegment\<close>

definition DeleteSegment :: "'st Schedule \<Rightarrow> int \<Rightarrow> 'st world \<Rightarrow> error option \<times> 'st world" where
  "DeleteSegment s i w =
     (case st_IsSegmentProtected (schStorage s) (store w) i of
        Inl err \<Rightarrow>
          (if errors_Is err storage_ErrSegmentNotFound
           then (Some service_ErrSegmentNotFound, w)
           else (Some (Errorf ''Schedule.DeleteSegment'' err), w))
      | Inr isProt \<Rightarrow>
          (case call_DeleteSegment s i w of
             (Some err, w') \<Rightarrow>
               (if errors_Is err storage_ErrSegmentNotFound
                then (Some service_ErrSegmentNotFound, w')
                else (Some (Errorf ''Schedule.DeleteSegment'' err), w'))
           | (None, w') \<Rightarrow>
               (if isProt then (None, Notify w') else (None, w'))))"

subsection \<open>NewSegment\<close>

text \<open>
  The check of the cuts. The condition is evaluated from left to right and stops at
  the first true disjunct, so which pointer is dereferenced depends on the values; the
  two warnings then call \<^verbatim>\<open>Microseconds\<close> on both cut pointers. The result is the error
  to return, if any.
\<close>

definition log_cut_args :: "Segment \<Rightarrow> unit outcome" where
  "log_cut_args segment =
     (case BeginCut segment of None \<Rightarrow> Panics
      | Some _ \<Rightarrow> (case StopCut segment of None \<Rightarrow> Panics | Some _ \<Rightarrow> Returns ()))"

definition cut_out_of_bounds :: "Media \<Rightarrow> Segment \<Rightarrow> bool outcome" where
  "cut_out_of_bounds media segment =
     (case Duration media of None \<Rightarrow> Panics
      | Some d \<Rightarrow>
          (case StopCut segment of None \<Rightarrow> Panics
           | Some sc \<Rightarrow>
               if d < sc then Returns True
               else (case BeginCut segment of None \<Rightarrow> Panics
                     | Some bc \<Rightarrow> Returns (d < bc \<or> bc < 0 \<or> sc < 0))))"

definition check_cut :: "Media \<Rightarrow> Segment \<Rightarrow> error option outcome" where
  "check_cut media segment =
     (case cut_out_of_bounds media segment of
        Panics \<Rightarrow> Panics
      | Returns True \<Rightarrow>
          (case log_cut_args segment of
             Panics \<Rightarrow> Panics
           | Returns _ \<Rightarrow> Returns (Some service_ErrCutOutOfBounds))
      | Returns False \<Rightarrow>
          (case BeginCut segment of None \<Rightarrow> Panics
           | Some bc \<Rightarrow>
               (case StopCut segment of None \<Rightarrow> Panics
                | Some sc \<Rightarrow>
                    if bc > sc then Returns (Some service_ErrBeginAfterStop)
                    else Returns None)))"

text \<open>\<^verbatim>\<open>slices.IndexFunc\<close>: the first index whose element satisfies \<open>f\<close>, or \<open>-1\<close>.\<close>

fun IndexFunc :: "'a list \<Rightarrow> ('a \<Rightarrow> bool) \<Rightarrow> int" where
  "IndexFunc [] f = - 1"
| "IndexFunc (x # xs) f =
     (if f x then 0 else (let j = IndexFunc xs f in if j = - 1 then - 1 else j + 1))"

text \<open>
  The loop that deletes the intersected segments. \<open>start\<close> is \<^verbatim>\<open>*segment.Start\<close> of the
  new segment. The condition of the \<^verbatim>\<open>continue\<close> is
  \<^verbatim>\<open>segm.End() == *segment.Start || *segm.Start == segm.End()\<close>: its second disjunct
  compares the found segment's start with the found segment's own end.
\<close>

fun delete_loop ::
  "'st Schedule \<Rightarrow> gotime \<Rightarrow> Segment list \<Rightarrow> 'st world \<Rightarrow> error option outcome \<times> 'st world" where
  "delete_loop s start [] w = (Returns None, w)"
| "delete_loop s start (segm # rest) w =
     (case End segm of
        None \<Rightarrow> (Panics, w)
      | Some segm_end \<Rightarrow>
          if segm_end = start \<or> Start segm = Some segm_end then delete_loop s start rest w
          else
            (case ID segm of
               None \<Rightarrow> (Panics, w)
             | Some i \<Rightarrow>
                 (case DeleteSegment s i w of
                    (None, w') \<Rightarrow> delete_loop s start rest w'
                  | (Some err, w') \<Rightarrow>
                      if errors_Is err service_ErrSegmentNotFound
                      then delete_loop s start rest w'
                      else (Returns (Some (Errorf ''Schedule.NewSegment'' err)), w'))))"

text \<open>The branch for a segment that is not protected (the source's lines 226 to 242).\<close>

definition insert_unprotected ::
  "'st Schedule \<Rightarrow> Segment \<Rightarrow> Segment list \<Rightarrow> 'st world \<Rightarrow> (int \<times> error option) outcome \<times> 'st world" where
  "insert_unprotected s segment res w =
     (if length res > 0 then (Returns (0, Some service_ErrSegmentIntersection), w)
      else
        (case call_SaveSegment s segment (Send segment w) of
           (Inl err, w') \<Rightarrow> (Returns (0, Some (Errorf ''Schedule.NewSegment'' err)), w')
         | (Inr i, w') \<Rightarrow> (Returns (i, None), w')))"

text \<open>
  The rest of the function, for a protected segment (lines 247 to 295). The warning
  about two protected segments formats \<^verbatim>\<open>res[j].Start\<close> and \<^verbatim>\<open>res[j].End()\<close>, which
  dereferences the pointers of the segment found.
\<close>

definition insert_protected ::
  "'st Schedule \<Rightarrow> Segment \<Rightarrow> gotime \<Rightarrow> Segment list \<Rightarrow> 'st world \<Rightarrow> (int \<times> error option) outcome \<times> 'st world" where
  "insert_protected s segment start res w =
     (let j = IndexFunc res Protected in
      if j \<noteq> - 1 then
        (case End (res ! nat j) of
           None \<Rightarrow> (Panics, w)
         | Some _ \<Rightarrow> (Returns (0, Some service_ErrSegmentIntersection), w))
      else
        (case delete_loop s start res w of
           (Panics, w1) \<Rightarrow> (Panics, w1)
         | (Returns (Some err), w1) \<Rightarrow> (Returns (0, Some err), w1)
         | (Returns None, w1) \<Rightarrow>
             (case call_SaveSegment s segment w1 of
                (Inl err, w2) \<Rightarrow> (Returns (0, Some (Errorf ''Schedule.NewSegment'' err)), w2)
              | (Inr i, w2) \<Rightarrow>
                  (case call_ProtectSegment s i w2 of
                     (Some err, w3) \<Rightarrow> (Returns (0, Some (Errorf ''Schedule.NewSegment'' err)), w3)
                   | (None, w3) \<Rightarrow> (Returns (i, None), Send segment (Notify w3))))))"

definition NewSegment ::
  "'st Schedule \<Rightarrow> Segment \<Rightarrow> 'st world \<Rightarrow> (int \<times> error option) outcome \<times> 'st world" where
  "NewSegment s segment w =
     (case MediaID segment of
        None \<Rightarrow> (Panics, w)
      | Some mid \<Rightarrow>
          (case mediaStorage s (store w) mid of
             Inl err \<Rightarrow>
               (if errors_Is err storage_ErrMediaNotFound
                then (Returns (0, Some service_ErrMediaNotFound), w)
                else (Returns (0, Some (Errorf ''Schedule.NewSegment'' err)), w))
           | Inr media \<Rightarrow>
               (case check_cut media segment of
                  Panics \<Rightarrow> (Panics, w)
                | Returns (Some err) \<Rightarrow> (Returns (0, Some err), w)
                | Returns None \<Rightarrow>
                    (case Start segment of
                       None \<Rightarrow> (Panics, w)
                     | Some start \<Rightarrow>
                         (case End segment of
                            None \<Rightarrow> (Panics, w)
                          | Some stop \<Rightarrow>
                              (case ScheduleCut s (store w) start stop of
                                 Panics \<Rightarrow> (Panics, w)
                               | Returns (res, Some err) \<Rightarrow>
                                   (Returns (0, Some (Errorf ''Schedule.NewSegment'' err)), w)
                               | Returns (res, None) \<Rightarrow>
                                   if \<not> Protected segment
                                   then insert_unprotected s segment res w
                                   else insert_protected s segment start res w))))))"

section \<open>A store in memory, for concrete inputs\<close>

text \<open>
  The store of the application (sqlite) is outside the sources; the theorems below hold
  for every implementation of the interface. To run the service on concrete inputs,
  this is a small implementation: the rows in insertion order, the identifiers of the
  protected rows, the next identifier, and for each operation the error it is to fail
  with, if any. Its range query returns the rows whose closed interval meets the
  closed query interval, so it also returns a row that only touches the boundary (the
  case that the loop of \<^verbatim>\<open>NewSegment\<close> treats separately).
\<close>

datatype store_op = OpScheduleCut | OpSaveSegment | OpDeleteSegment | OpProtectSegment | OpIsSegmentProtected

record mem =
  rows :: "Segment list"
  protected_ids :: "int list"
  next_id :: int
  fault :: "store_op \<Rightarrow> error option"

definition no_fault :: "store_op \<Rightarrow> error option" where
  "no_fault op = None"

definition fault_on :: "store_op \<Rightarrow> error \<Rightarrow> store_op \<Rightarrow> error option" where
  "fault_on bad e op = (if op = bad then Some e else None)"

definition intersects :: "gotime \<Rightarrow> gotime \<Rightarrow> Segment \<Rightarrow> bool" where
  "intersects start stop r =
     (case (Start r, End r) of
        (Some a, Some b) \<Rightarrow> unix_nanos a \<le> unix_nanos stop \<and> unix_nanos start \<le> unix_nanos b
      | _ \<Rightarrow> False)"

definition mem_ScheduleCut :: "mem \<Rightarrow> gotime \<Rightarrow> gotime \<Rightarrow> error + Segment list" where
  "mem_ScheduleCut m start stop =
     (case fault m OpScheduleCut of Some e \<Rightarrow> Inl e
      | None \<Rightarrow> Inr (filter (intersects start stop) (rows m)))"

definition mem_SaveSegment :: "mem \<Rightarrow> Segment \<Rightarrow> (error + int) \<times> mem" where
  "mem_SaveSegment m segment =
     (case fault m OpSaveSegment of Some e \<Rightarrow> (Inl e, m)
      | None \<Rightarrow>
          (Inr (next_id m),
           m\<lparr>rows := rows m @ [segment\<lparr>ID := Some (next_id m), Protected := False\<rparr>],
             next_id := next_id m + 1\<rparr>))"

definition mem_DeleteSegment :: "mem \<Rightarrow> int \<Rightarrow> error option \<times> mem" where
  "mem_DeleteSegment m i =
     (case fault m OpDeleteSegment of Some e \<Rightarrow> (Some e, m)
      | None \<Rightarrow>
          if Some i \<in> set (map ID (rows m))
          then (None, m\<lparr>rows := filter (\<lambda>r. ID r \<noteq> Some i) (rows m),
                        protected_ids := removeAll i (protected_ids m)\<rparr>)
          else (Some storage_ErrSegmentNotFound, m))"

definition mem_ProtectSegment :: "mem \<Rightarrow> int \<Rightarrow> error option \<times> mem" where
  "mem_ProtectSegment m i =
     (case fault m OpProtectSegment of Some e \<Rightarrow> (Some e, m)
      | None \<Rightarrow> (None, m\<lparr>protected_ids := i # protected_ids m\<rparr>))"

definition mem_IsSegmentProtected :: "mem \<Rightarrow> int \<Rightarrow> error + bool" where
  "mem_IsSegmentProtected m i =
     (case fault m OpIsSegmentProtected of Some e \<Rightarrow> Inl e
      | None \<Rightarrow>
          if Some i \<in> set (map ID (rows m)) then Inr (i \<in> set (protected_ids m))
          else Inl storage_ErrSegmentNotFound)"

definition mem_storage :: "mem ScheduleStorage" where
  "mem_storage =
     \<lparr>st_ScheduleCut = mem_ScheduleCut, st_SaveSegment = mem_SaveSegment,
      st_DeleteSegment = mem_DeleteSegment, st_ProtectSegment = mem_ProtectSegment,
      st_IsSegmentProtected = mem_IsSegmentProtected\<rparr>"

definition seconds :: "int \<Rightarrow> Duration" where
  "seconds n = n * 1000000000"

definition at_second :: "int \<Rightarrow> gotime" where
  "at_second n = \<lparr>unix_nanos = seconds n, zone_offset = 0, location = 0\<rparr>"

definition media_M :: Media where
  "media_M = \<lparr>ID_media = Some 1, Name = Some ''M'', Author = Some ''a'',
              Duration = Some (seconds 300), SourceID = Some 1\<rparr>"

definition mem_Media :: "mem \<Rightarrow> int \<Rightarrow> error + Media" where
  "mem_Media m i = (if i = 1 then Inr media_M else Inl storage_ErrMediaNotFound)"

definition mem_schedule :: "mem Schedule" where
  "mem_schedule = \<lparr>schStorage = mem_storage, mediaStorage = mem_Media\<rparr>"

definition new_segment :: "int \<Rightarrow> int \<Rightarrow> int \<Rightarrow> bool \<Rightarrow> Segment" where
  "new_segment start b e p =
     \<lparr>ID = None, MediaID = Some 1, Start = Some (at_second start),
      BeginCut = Some (seconds b), StopCut = Some (seconds e), Protected = p\<rparr>"

definition row :: "int \<Rightarrow> int \<Rightarrow> int \<Rightarrow> int \<Rightarrow> Segment" where
  "row i start b e = (new_segment start b e False)\<lparr>ID := Some i\<rparr>"

definition mem_with :: "Segment list \<Rightarrow> int list \<Rightarrow> (store_op \<Rightarrow> error option) \<Rightarrow> mem world" where
  "mem_with rs ps f =
     \<lparr>store = \<lparr>rows = rs, protected_ids = ps, next_id = 1 + int (length rs), fault = f\<rparr>,
      trace = []\<rparr>"

text \<open>Segments for concrete inputs: one with a given start, one with every pointer nil.\<close>

definition stamped :: "int \<Rightarrow> int \<Rightarrow> Segment" where
  "stamped ns off =
     \<lparr>ID = Some 1, MediaID = Some 1, Start = Some \<lparr>unix_nanos = ns, zone_offset = off, location = 1\<rparr>,
      BeginCut = Some 0, StopCut = Some 0, Protected = False\<rparr>"

definition nil_segment :: Segment where
  "nil_segment = \<lparr>ID = None, MediaID = None, Start = None, BeginCut = None, StopCut = None,
                   Protected = False\<rparr>"

text \<open>The events a deletion through \<^verbatim>\<open>DeleteSegment\<close> can leave in the trace.\<close>

fun is_displacement :: "event \<Rightarrow> bool" where
  "is_displacement (EvDelete i) = True"
| "is_displacement EvNotify = True"
| "is_displacement e = False"

section \<open>Auxiliary facts\<close>

lemmas mem_defs = mem_schedule_def mem_storage_def mem_ScheduleCut_def mem_SaveSegment_def
  mem_DeleteSegment_def mem_ProtectSegment_def mem_IsSegmentProtected_def mem_Media_def
  media_M_def new_segment_def row_def mem_with_def seconds_def at_second_def intersects_def
  no_fault_def fault_on_def

lemmas eng_defs = NewSegment_def insert_protected_def insert_unprotected_def check_cut_def
  cut_out_of_bounds_def log_cut_args_def ScheduleCut_def DeleteSegment_def End_def Add_def
  call_SaveSegment_def call_DeleteSegment_def call_ProtectSegment_def Send_def Notify_def

lemma check_cut_ok:
  assumes "Duration media = Some d" "BeginCut segment = Some bc" "StopCut segment = Some sc"
    and "0 \<le> bc" "bc \<le> sc" "sc \<le> d"
  shows "check_cut media segment = Returns None"
  using assms by (simp add: check_cut_def cut_out_of_bounds_def)

lemma IndexFunc_ge: "- 1 \<le> IndexFunc xs f"
  by (induction xs) (auto simp: Let_def)

lemma IndexFunc_found: "(IndexFunc xs f \<noteq> - 1) = (\<exists>x\<in>set xs. f x)"
proof (induction xs)
  case Nil
  then show ?case by simp
next
  case (Cons x xs)
  have "IndexFunc xs f + 1 \<noteq> - 1"
    using IndexFunc_ge [of xs f] by linarith
  with Cons show ?case
    by (auto simp: Let_def)
qed

lemma IndexFunc_nth:
  "IndexFunc xs f \<noteq> - 1 \<Longrightarrow> nat (IndexFunc xs f) < length xs \<and> f (xs ! nat (IndexFunc xs f))"
proof (induction xs)
  case Nil
  then show ?case by simp
next
  case (Cons x xs)
  show ?case
  proof (cases "f x")
    case True
    then show ?thesis by simp
  next
    case False
    with Cons.prems have ne: "IndexFunc xs f \<noteq> - 1"
      by (auto simp: Let_def split: if_splits)
    have ge: "0 \<le> IndexFunc xs f"
      using ne IndexFunc_ge [of xs f] by linarith
    have "nat (IndexFunc xs f + 1) = Suc (nat (IndexFunc xs f))"
      using ge by simp
    with False ne Cons.IH show ?thesis
      by (simp add: Let_def)
  qed
qed

declare digits_of.simps [simp del]

lemmas cal_defs = Date_def local_seconds_def civil_from_days_def civil_of_doe_def civil_of_yoe_def
  civil_of_doy_def civil_of_mp_def civil_of_month_def Clock_def clock_of_def Nanosecond_def

subsection \<open>The loops of the service\<close>

lemma ScheduleCut_loop_error:
  "ScheduleCut_loop s st done xs = Returns (segs, Some e) \<Longrightarrow> segs = []"
  by (induction xs arbitrary: "done") (auto split: option.splits sum.splits)

lemma ScheduleCut_loop_fetch_fails:
  assumes "\<forall>x\<in>set xs. ID x \<noteq> None"
    and "\<exists>x\<in>set xs. \<exists>i err. ID x = Some i \<and> st_IsSegmentProtected (schStorage s) st i = Inl err"
  shows "\<exists>e. ScheduleCut_loop s st done xs = Returns ([], Some e)"
  using assms
proof (induction xs arbitrary: "done")
  case Nil
  then show ?case by simp
next
  case (Cons x xs)
  from Cons.prems(1) obtain i where i: "ID x = Some i" by auto
  show ?case
  proof (cases "st_IsSegmentProtected (schStorage s) st i")
    case (Inl err)
    with i show ?thesis by simp
  next
    case (Inr p)
    with i Cons.prems have "\<exists>x\<in>set xs. \<exists>i err. ID x = Some i \<and> st_IsSegmentProtected (schStorage s) st i = Inl err"
      by auto
    moreover from Cons.prems have "\<forall>x\<in>set xs. ID x \<noteq> None" by simp
    ultimately show ?thesis using Cons.IH i Inr by simp
  qed
qed

lemma check_cut_nil:
  "Duration media = None \<or> BeginCut segment = None \<or> StopCut segment = None \<Longrightarrow>
     check_cut media segment = Panics"
  by (auto simp: check_cut_def cut_out_of_bounds_def log_cut_args_def
           split: option.splits outcome.splits bool.splits)

lemma ScheduleCut_loop_no_panic:
  "\<forall>x\<in>set xs. ID x \<noteq> None \<Longrightarrow> ScheduleCut_loop s st done xs \<noteq> Panics"
  by (induction xs arbitrary: "done") (auto split: option.splits sum.splits)

lemma End_Protected: "End (x\<lparr>Protected := p\<rparr>) = End x"
  by (simp add: End_def split: option.splits)

lemma ScheduleCut_loop_fields:
  "ScheduleCut_loop s st done xs = Returns (res, None) \<Longrightarrow>
     \<forall>x\<in>set (done @ xs). ID x \<noteq> None \<and> End x \<noteq> None \<Longrightarrow>
     \<forall>x\<in>set res. ID x \<noteq> None \<and> End x \<noteq> None"
proof (induction xs arbitrary: "done")
  case Nil
  then show ?case by simp
next
  case (Cons x xs)
  from Cons.prems(2) obtain i where i: "ID x = Some i" by auto
  from Cons.prems(1) i obtain p where
    p: "st_IsSegmentProtected (schStorage s) st i = Inr p" and
    l: "ScheduleCut_loop s st (done @ [x\<lparr>Protected := p\<rparr>]) xs = Returns (res, None)"
    by (auto split: sum.splits)
  have "\<forall>y\<in>set ((done @ [x\<lparr>Protected := p\<rparr>]) @ xs). ID y \<noteq> None \<and> End y \<noteq> None"
    using Cons.prems(2) by (auto simp: End_Protected)
  with l show ?case by (rule Cons.IH)
qed

lemma delete_loop_no_panic:
  "\<forall>x\<in>set res. ID x \<noteq> None \<and> End x \<noteq> None \<Longrightarrow> fst (delete_loop s start res w) \<noteq> Panics"
proof (induction res arbitrary: w)
  case Nil
  then show ?case by simp
next
  case (Cons segm rest)
  then obtain i e where "ID segm = Some i" "End segm = Some e" by auto
  moreover have "\<And>w1. fst (delete_loop s start rest w1) \<noteq> Panics"
    using Cons by simp
  ultimately show ?case
    by (auto split: prod.splits option.splits)
qed

lemma DeleteSegment_trace:
  assumes "DeleteSegment s i w = (r, w')"
  shows "\<exists>evs. trace w' = trace w @ evs \<and> list_all is_displacement evs"
  using assms
  by (auto simp: DeleteSegment_def call_DeleteSegment_def Notify_def
           split: sum.splits prod.splits option.splits if_splits)

lemma delete_loop_trace:
  "delete_loop s start res w = (r, w') \<Longrightarrow>
     \<exists>evs. trace w' = trace w @ evs \<and> list_all is_displacement evs"
proof (induction res arbitrary: w)
  case Nil
  then show ?case by simp
next
  case (Cons segm rest)
  show ?case
  proof (cases "End segm")
    case None
    with Cons.prems show ?thesis by simp
  next
    case (Some segm_end)
    show ?thesis
    proof (cases "segm_end = start \<or> Start segm = Some segm_end")
      case True
      with Some Cons.prems have "delete_loop s start rest w = (r, w')" by simp
      then show ?thesis by (rule Cons.IH)
    next
      case False
      show ?thesis
      proof (cases "ID segm")
        case None
        with Some False Cons.prems show ?thesis by simp
      next
        case (Some i)
        obtain e w1 where d: "DeleteSegment s i w = (e, w1)" by (cases "DeleteSegment s i w")
        from DeleteSegment_trace [OF d] obtain evs where
          evs: "trace w1 = trace w @ evs" "list_all is_displacement evs" by blast
        show ?thesis
        proof (cases "r = Returns (Some (Errorf ''Schedule.NewSegment'' (the e))) \<and> w' = w1")
          case True
          with evs show ?thesis by auto
        next
          case stop: False
          have "delete_loop s start rest w1 = (r, w')"
            using Cons.prems \<open>End segm = Some segm_end\<close> False Some d stop
            by (auto split: option.splits if_splits)
          from Cons.IH [OF this] obtain evs' where
            "trace w' = trace w1 @ evs'" "list_all is_displacement evs'" by blast
          with evs have "trace w' = trace w @ (evs @ evs') \<and> list_all is_displacement (evs @ evs')"
            by simp
          then show ?thesis by blast
        qed
      qed
    qed
  qed
qed

lemma insert_protected_success:
  assumes "insert_protected s segment start res w = (Returns (i, None), w')"
  shows "\<exists>dels. list_all is_displacement dels \<and>
           trace w' = trace w @ dels @ [EvSave segment, EvProtect i, EvNotify, EvSend segment]"
proof -
  from assms have j: "IndexFunc res Protected = - 1"
    by (auto simp: insert_protected_def Let_def split: option.splits if_splits)
  obtain r1 w1 where l: "delete_loop s start res w = (r1, w1)"
    by (cases "delete_loop s start res w")
  from delete_loop_trace [OF l] obtain dels where
    dels: "trace w1 = trace w @ dels" "list_all is_displacement dels" by blast
  from assms j l have "trace w' = trace w1 @ [EvSave segment, EvProtect i, EvNotify, EvSend segment]"
    by (auto simp: insert_protected_def call_SaveSegment_def call_ProtectSegment_def
                   Send_def Notify_def
             split: outcome.splits option.splits sum.splits prod.splits)
  with dels show ?thesis by auto
qed


lemma insert_protected_trace:
  assumes "insert_protected s segment start res w = (r, w')"
  shows "\<exists>dels tail. list_all is_displacement dels \<and> trace w' = trace w @ dels @ tail \<and>
           (tail = [] \<or> tail = [EvSave segment] \<or> (\<exists>i. tail = [EvSave segment, EvProtect i]) \<or>
            (\<exists>i. tail = [EvSave segment, EvProtect i, EvNotify, EvSend segment]))"
proof (cases "IndexFunc res Protected = - 1")
  case False
  with assms have "w' = w"
    by (auto simp: insert_protected_def Let_def split: option.splits)
  then have "list_all is_displacement [] \<and> trace w' = trace w @ [] @ []" by simp
  then show ?thesis by blast
next
  case True
  obtain r1 w1 where l: "delete_loop s start res w = (r1, w1)"
    by (cases "delete_loop s start res w")
  from delete_loop_trace [OF l] obtain dels where
    dels: "trace w1 = trace w @ dels" "list_all is_displacement dels" by blast
  from assms True l have
    "trace w' = trace w1 \<or> trace w' = trace w1 @ [EvSave segment] \<or>
     (\<exists>i. trace w' = trace w1 @ [EvSave segment, EvProtect i]) \<or>
     (\<exists>i. trace w' = trace w1 @ [EvSave segment, EvProtect i, EvNotify, EvSend segment])"
    by (auto simp: insert_protected_def call_SaveSegment_def call_ProtectSegment_def
                   Send_def Notify_def
             split: outcome.splits option.splits sum.splits prod.splits)
  then have "\<exists>tail. trace w' = trace w1 @ tail \<and>
           (tail = [] \<or> tail = [EvSave segment] \<or> (\<exists>i. tail = [EvSave segment, EvProtect i]) \<or>
            (\<exists>i. tail = [EvSave segment, EvProtect i, EvNotify, EvSend segment]))"
    by auto
  with dels show ?thesis by auto
qed

lemma insert_unprotected_trace:
  assumes "insert_unprotected s segment res w = (r, w')"
  shows "trace w' = trace w \<or> trace w' = trace w @ [EvSend segment, EvSave segment]"
  using assms
  by (auto simp: insert_unprotected_def call_SaveSegment_def Send_def
           split: if_splits sum.splits prod.splits)

lemma NewSegment_branches:
  assumes "NewSegment s segment w = (r, w')"
  shows "w' = w \<or>
         (\<not> Protected segment \<and> (\<exists>res. insert_unprotected s segment res w = (r, w'))) \<or>
         (Protected segment \<and> (\<exists>start res. insert_protected s segment start res w = (r, w')))"
  using assms
  by (auto simp: NewSegment_def split: option.splits sum.splits outcome.splits if_splits)

lemma displacement_no_send: "list_all is_displacement dels \<Longrightarrow> EvSend y \<notin> set dels"
  by (induction dels) auto

subsection \<open>Decimal digits, the fraction and the zone\<close>

lemma digit_isDigit: "n < 10 \<Longrightarrow> isDigit (digit n)"
  unfolding digit_def isDigit_def by (rule nth_mem) simp

lemma digit_nonzero:
  assumes "0 < n" "n < 10"
  shows "digit n \<noteq> CHR ''0''"
proof -
  from assms obtain m where m: "n = Suc m" "m < 9" by (cases n) auto
  then have "digit n = ''123456789'' ! m" by (simp add: digit_def)
  moreover from m have "''123456789'' ! m \<in> set ''123456789''" by (intro nth_mem) simp
  ultimately show ?thesis by auto
qed

lemma digits_of_isDigit: "list_all isDigit (digits_of n)"
proof (induction n rule: digits_of.induct)
  case (1 n)
  show ?case
  proof (cases "n < 10")
    case True
    then show ?thesis by (simp add: digits_of.simps [of n] digit_isDigit)
  next
    case False
    with "1" show ?thesis by (simp add: digits_of.simps [of n] digit_isDigit)
  qed
qed

lemma digits_of_nonempty: "digits_of n \<noteq> []"
  by (simp add: digits_of.simps [of n])

lemma digits_of_length: "0 < k \<Longrightarrow> n < 10 ^ k \<Longrightarrow> length (digits_of n) \<le> k"
proof (induction n arbitrary: k rule: digits_of.induct)
  case (1 n)
  show ?case
  proof (cases "n < 10")
    case True
    with "1.prems" show ?thesis by (simp add: digits_of.simps [of n])
  next
    case False
    from "1.prems" obtain k' where k: "k = Suc k'" by (cases k) auto
    with False "1.prems" have k': "0 < k'" by (cases k') auto
    from "1.prems" k have "n div 10 < 10 ^ k'"
      by (simp add: less_mult_imp_div_less mult.commute)
    with "1.IH" [OF False k'] have "length (digits_of (n div 10)) \<le> k'" by simp
    with False k show ?thesis by (simp add: digits_of.simps [of n])
  qed
qed

lemma digits_of_hd: "0 < n \<Longrightarrow> hd (digits_of n) \<noteq> CHR ''0''"
proof (induction n rule: digits_of.induct)
  case (1 n)
  show ?case
  proof (cases "n < 10")
    case True
    with "1.prems" show ?thesis by (simp add: digits_of.simps [of n] digit_nonzero)
  next
    case False
    then have "0 < n div 10" by simp
    with "1.IH" [OF False] have "hd (digits_of (n div 10)) \<noteq> CHR ''0''" by simp
    with False show ?thesis
      by (simp add: digits_of.simps [of n] digits_of_nonempty)
  qed
qed

lemma appendInt_fixed:
  assumes "0 \<le> x" "x < 10 ^ k" "0 < k"
  shows "length (appendInt x k) = k \<and> list_all isDigit (appendInt x k)"
proof -
  have "nat \<bar>x\<bar> < 10 ^ k"
    using assms by (simp add: nat_less_iff)
  then have "length (digits_of (nat \<bar>x\<bar>)) \<le> k"
    using assms(3) by (intro digits_of_length)
  moreover have "isDigit CHR ''0''" by (simp add: isDigit_def)
  moreover have "\<forall>c\<in>set (digits_of (nat \<bar>x\<bar>)). isDigit c"
    using digits_of_isDigit [of "nat \<bar>x\<bar>"] by (simp add: list_all_iff)
  ultimately show ?thesis
    using assms(1) by (auto simp: appendInt_def Let_def list_all_iff)
qed

lemma appendInt_nonzero:
  assumes "0 < x"
  shows "\<exists>c\<in>set (appendInt x k). c \<noteq> CHR ''0''"
proof -
  have "hd (digits_of (nat \<bar>x\<bar>)) \<noteq> CHR ''0''"
    using assms by (intro digits_of_hd) simp
  moreover have "hd (digits_of (nat \<bar>x\<bar>)) \<in> set (digits_of (nat \<bar>x\<bar>))"
    by (simp add: digits_of_nonempty)
  ultimately show ?thesis
    using assms by (auto simp: appendInt_def Let_def)
qed

lemma trim_zeros_Cons:
  assumes "\<exists>x\<in>set xs. x \<noteq> CHR ''0''"
  shows "trim_zeros (c # xs) = c # trim_zeros xs"
proof -
  from assms obtain x where "x \<in> set (rev xs)" "\<not> x = CHR ''0''" by auto
  then have "dropWhile (\<lambda>c. c = CHR ''0'') (rev xs @ [c]) = dropWhile (\<lambda>c. c = CHR ''0'') (rev xs) @ [c]"
    by (intro dropWhile_append1) auto
  then show ?thesis by (simp add: trim_zeros_def)
qed

lemma trim_zeros_facts:
  assumes "\<exists>x\<in>set xs. x \<noteq> CHR ''0''"
  shows "trim_zeros xs \<noteq> [] \<and> last (trim_zeros xs) \<noteq> CHR ''0'' \<and>
         set (trim_zeros xs) \<subseteq> set xs \<and> length (trim_zeros xs) \<le> length xs"
proof -
  let ?d = "dropWhile (\<lambda>c. c = CHR ''0'') (rev xs)"
  from assms have ne: "?d \<noteq> []" by (auto simp: dropWhile_eq_Nil_conv)
  then have "hd ?d \<noteq> CHR ''0''" using hd_dropWhile [of "\<lambda>c. c = CHR ''0''" "rev xs"] by simp
  with ne have "last (rev ?d) \<noteq> CHR ''0''" by (simp add: last_rev)
  moreover have "set ?d \<subseteq> set xs" using set_dropWhileD [of _ "\<lambda>c. c = CHR ''0''" "rev xs"] by auto
  moreover have "length ?d \<le> length xs" using length_dropWhile_le [of "\<lambda>c. c = CHR ''0''" "rev xs"] by simp
  ultimately show ?thesis using ne by (simp add: trim_zeros_def)
qed


lemma has_shape_append:
  "has_shape p1 s1 \<Longrightarrow> has_shape p2 s2 \<Longrightarrow> has_shape (p1 @ p2) (s1 @ s2)"
  by (simp add: has_shape_def list_all2_appendI)

lemma has_shape_digits:
  assumes "length s = length p" "list_all isDigit s" "set p \<subseteq> set ''YMDhmsf''"
  shows "has_shape p s"
  unfolding has_shape_def list_all2_conv_all_nth
proof (intro conjI allI impI)
  show "length p = length s" using assms by simp
next
  fix i assume i: "i < length p"
  with assms have "isDigit (s ! i)" by (simp add: list_all_length)
  moreover from i assms(3) have "p ! i \<in> set ''YMDhmsf''" using nth_mem by blast
  ultimately show "fits (p ! i) (s ! i)" by simp
qed

lemma has_shape_lit: "c \<notin> set ''YMDhmsf+'' \<Longrightarrow> has_shape [c] [c]"
  by (simp add: has_shape_def)

lemma appendInt2_shape:
  assumes "0 \<le> x" "x < 100" "set p \<subseteq> set ''YMDhmsf''" "length p = 2"
  shows "has_shape p (appendInt x 2)"
proof -
  have "length (appendInt x 2) = 2 \<and> list_all isDigit (appendInt x 2)"
    using assms by (intro appendInt_fixed) simp_all
  with assms show ?thesis by (intro has_shape_digits) simp_all
qed

lemma appendNano_zero: "appendNano 0 9 True = []"
  by (simp add: appendNano_def)

lemma appendNano_shape:
  assumes "0 < nanosec" "nanosec < 1000000000"
  shows "\<exists>k. 1 \<le> k \<and> k \<le> 9 \<and>
           has_shape (CHR ''.'' # replicate k CHR ''f'') (appendNano nanosec 9 True) \<and>
           last (appendNano nanosec 9 True) \<noteq> CHR ''0''"
proof -
  let ?xs = "appendInt nanosec 9"
  let ?ys = "trim_zeros ?xs"
  have fx: "length ?xs = 9 \<and> list_all isDigit ?xs"
    using assms by (intro appendInt_fixed) simp_all
  have nz: "\<exists>c\<in>set ?xs. c \<noteq> CHR ''0''"
    using assms(1) by (rule appendInt_nonzero)
  from trim_zeros_facts [OF nz] have
    ys: "?ys \<noteq> []" "last ?ys \<noteq> CHR ''0''" "set ?ys \<subseteq> set ?xs" "length ?ys \<le> length ?xs"
    by simp_all
  have dig: "list_all isDigit ?ys"
    using fx ys(3) by (auto simp: list_all_iff)
  have "last ?ys \<in> set ?ys" using ys(1) by simp
  with dig have "isDigit (last ?ys)" by (simp add: list_all_iff)
  then have nd: "last ?ys \<noteq> CHR ''.''" by (auto simp: isDigit_def)
  have b: "trim_zeros (CHR ''.'' # ?xs) = CHR ''.'' # ?ys"
    using nz by (rule trim_zeros_Cons)
  have r: "appendNano nanosec 9 True = CHR ''.'' # ?ys"
    using assms fx b ys(1) nd by (simp add: appendNano_def Let_def trim_dot_def)
  have "has_shape (replicate (length ?ys) CHR ''f'') ?ys"
    using dig by (intro has_shape_digits) auto
  then have "has_shape (CHR ''.'' # replicate (length ?ys) CHR ''f'') (CHR ''.'' # ?ys)"
    by (simp add: has_shape_def)
  moreover have "1 \<le> length ?ys \<and> length ?ys \<le> 9"
    using ys(1,4) fx by (cases ?ys) auto
  ultimately show ?thesis using r ys(1,2) by auto
qed

lemma appendZone_shape:
  assumes "\<bar>offset\<bar> < 360000"
  shows "has_shape ''+hh:mm'' (appendZone offset)"
proof -
  let ?z = "quo offset 60"
  have az: "\<bar>?z\<bar> = \<bar>offset\<bar> div 60"
    by (cases "offset = 0") (simp_all add: quo_def abs_mult)
  have h: "0 \<le> \<bar>?z\<bar> div 60 \<and> \<bar>?z\<bar> div 60 < 100"
    using assms az by (simp add: pos_imp_zdiv_nonneg_iff div_less_iff_less_mult) 
  have m: "0 \<le> \<bar>?z\<bar> mod 60 \<and> \<bar>?z\<bar> mod 60 < 100"
    using pos_mod_bound [of 60 "\<bar>?z\<bar>"] by simp
  have hs: "has_shape ''hh'' (appendInt (\<bar>?z\<bar> div 60) 2)"
    using h by (intro appendInt2_shape) simp_all
  have ms: "has_shape ''mm'' (appendInt (\<bar>?z\<bar> mod 60) 2)"
    using m by (intro appendInt2_shape) simp_all
  have sg: "has_shape ''+'' (if ?z < 0 then ''-'' else ''+'')"
    by (simp add: has_shape_def)
  have c: "has_shape '':'' '':''" by (simp add: has_shape_def)
  have "has_shape (''+'' @ ''hh'' @ '':'' @ ''mm'')
          ((if ?z < 0 then ''-'' else ''+'') @ appendInt (\<bar>?z\<bar> div 60) 2 @ '':'' @
           appendInt (\<bar>?z\<bar> mod 60) 2)"
    by (intro has_shape_append sg hs c ms)
  then show ?thesis by (simp add: appendZone_def Let_def)
qed


lemma chunks_TimeFormat:
  "layout_chunks TimeFormat =
     [stdLongYear, Lit CHR ''-'', stdZeroMonth, Lit CHR ''-'', stdZeroDay, Lit CHR ''T'',
      stdHour, Lit CHR '':'', stdZeroMinute, Lit CHR '':'', stdZeroSecond, stdFracSecond9 9,
      stdNumColonTZ]"
  by (simp add: TimeFormat_def nextStdChunk_def frac_run_def frac_ends_def isDigit_def)

lemma Format_TimeFormat:
  "Format t TimeFormat =
     (appendInt (fst (Date t)) 4 @ ''-'' @ appendInt (fst (snd (Date t))) 2 @ ''-'' @
      appendInt (snd (snd (Date t))) 2 @ ''T'' @ appendInt (fst (Clock t)) 2 @ '':'' @
      appendInt (fst (snd (Clock t))) 2 @ '':'' @ appendInt (snd (snd (Clock t))) 2) @
     appendNano (Nanosecond t) 9 True @ appendZone (zone_offset t)"
  by (simp add: Format_def chunks_TimeFormat)

lemma doy_rough:
  fixes doe :: int
  assumes "0 \<le> doe" "doe < 146097"
  shows "- 30 \<le> doe - (365 * ((doe - doe div 1460 + doe div 36524 - doe div 146096) div 365)
            + ((doe - doe div 1460 + doe div 36524 - doe div 146096) div 365) div 4
            - ((doe - doe div 1460 + doe div 36524 - doe div 146096) div 365) div 100)"
    and "doe - (365 * ((doe - doe div 1460 + doe div 36524 - doe div 146096) div 365)
            + ((doe - doe div 1460 + doe div 36524 - doe div 146096) div 365) div 4
            - ((doe - doe div 1460 + doe div 36524 - doe div 146096) div 365) div 100) \<le> 400"
  using assms by linarith+

lemma day_bounds:
  fixes doy :: int
  shows "1 \<le> doy - (153 * ((5 * doy + 2) div 153) + 2) div 5 + 1"
    and "doy - (153 * ((5 * doy + 2) div 153) + 2) div 5 + 1 \<le> 31"
  by linarith+

lemma civil_of_doy_bounds:
  assumes "- 30 \<le> doy" "doy \<le> 400"
  shows "1 \<le> fst (snd (civil_of_doy y doy)) \<and> fst (snd (civil_of_doy y doy)) \<le> 12 \<and>
         1 \<le> snd (snd (civil_of_doy y doy)) \<and> snd (snd (civil_of_doy y doy)) \<le> 31"
proof -
  have mp: "- 1 \<le> (5 * doy + 2) div 153 \<and> (5 * doy + 2) div 153 \<le> 13"
    using assms by linarith
  show ?thesis
    using mp day_bounds [of doy]
    by (simp add: civil_of_doy_def civil_of_mp_def civil_of_month_def)
qed

lemma Date_bounds:
  "1 \<le> fst (snd (Date t)) \<and> fst (snd (Date t)) \<le> 12 \<and>
   1 \<le> snd (snd (Date t)) \<and> snd (snd (Date t)) \<le> 31"
proof -
  define doe where "doe = (local_seconds t div 86400 + 719468) mod 146097"
  have r: "0 \<le> doe" "doe < 146097" by (simp_all add: doe_def)
  show ?thesis
    unfolding Date_def civil_from_days_def civil_of_doe_def civil_of_yoe_def doe_def [symmetric]
    by (intro civil_of_doy_bounds doy_rough r)
qed

lemma Clock_bounds:
  "0 \<le> fst (Clock t) \<and> fst (Clock t) < 24 \<and> 0 \<le> fst (snd (Clock t)) \<and> fst (snd (Clock t)) < 60 \<and>
   0 \<le> snd (snd (Clock t)) \<and> snd (snd (Clock t)) < 60"
proof -
  define sod where "sod = local_seconds t mod 86400"
  have r: "0 \<le> sod" "sod < 86400" by (simp_all add: sod_def)
  then have "0 \<le> sod div 3600 \<and> sod div 3600 < 24" by linarith
  moreover have "0 \<le> (sod mod 3600) div 60 \<and> (sod mod 3600) div 60 < 60" by linarith
  moreover have "0 \<le> sod mod 60 \<and> sod mod 60 < 60" by simp
  ultimately show ?thesis
    by (simp add: Clock_def clock_of_def sod_def)
qed

lemma date_clock_shape:
  assumes "0 \<le> fst (Date t)" "fst (Date t) \<le> 9999"
  shows "has_shape ''YYYY-MM-DDThh:mm:ss''
           (appendInt (fst (Date t)) 4 @ ''-'' @ appendInt (fst (snd (Date t))) 2 @ ''-'' @
            appendInt (snd (snd (Date t))) 2 @ ''T'' @ appendInt (fst (Clock t)) 2 @ '':'' @
            appendInt (fst (snd (Clock t))) 2 @ '':'' @ appendInt (snd (snd (Clock t))) 2)"
proof -
  have "length (appendInt (fst (Date t)) 4) = 4 \<and> list_all isDigit (appendInt (fst (Date t)) 4)"
    using assms by (intro appendInt_fixed) simp_all
  then have y: "has_shape ''YYYY'' (appendInt (fst (Date t)) 4)"
    by (intro has_shape_digits) simp_all
  have mo: "has_shape ''MM'' (appendInt (fst (snd (Date t))) 2)"
    using Date_bounds [of t] by (intro appendInt2_shape) simp_all
  have d: "has_shape ''DD'' (appendInt (snd (snd (Date t))) 2)"
    using Date_bounds [of t] by (intro appendInt2_shape) simp_all
  have h: "has_shape ''hh'' (appendInt (fst (Clock t)) 2)"
    using Clock_bounds [of t] by (intro appendInt2_shape) simp_all
  have mi: "has_shape ''mm'' (appendInt (fst (snd (Clock t))) 2)"
    using Clock_bounds [of t] by (intro appendInt2_shape) simp_all
  have se: "has_shape ''ss'' (appendInt (snd (snd (Clock t))) 2)"
    using Clock_bounds [of t] by (intro appendInt2_shape) simp_all
  have l1: "has_shape ''-'' ''-''" and l2: "has_shape ''T'' ''T''" and l3: "has_shape '':'' '':''"
    by (simp_all add: has_shape_def)
  have "has_shape (''YYYY'' @ ''-'' @ ''MM'' @ ''-'' @ ''DD'' @ ''T'' @ ''hh'' @ '':'' @ ''mm'' @ '':'' @ ''ss'')
           (appendInt (fst (Date t)) 4 @ ''-'' @ appendInt (fst (snd (Date t))) 2 @ ''-'' @
            appendInt (snd (snd (Date t))) 2 @ ''T'' @ appendInt (fst (Clock t)) 2 @ '':'' @
            appendInt (fst (snd (Clock t))) 2 @ '':'' @ appendInt (snd (snd (Clock t))) 2)"
    by (intro has_shape_append y mo d h mi se l1 l2 l3)
  then show ?thesis by simp
qed

section \<open>Rejected insertions\<close>

text \<open>
  Claim C3. A segment that is not protected and whose overlap query returns at least
  one segment is refused with \<open>service_ErrSegmentIntersection\<close>. The query is reached
  when the media is found and the cuts are valid; then the world after the call is the
  world before it: no command of the store was called, so the store is unchanged, and
  nothing was sent on either channel.
\<close>

theorem NewSegment_unprotected_intersection:
  assumes "\<not> Protected segment"
    and "MediaID segment = Some mid" and "mediaStorage s (store w) mid = Inr media"
    and "Duration media = Some d" and "BeginCut segment = Some bc" and "StopCut segment = Some sc"
    and "0 \<le> bc" and "bc \<le> sc" and "sc \<le> d"
    and "Start segment = Some start"
    and "ScheduleCut s (store w) start (Add start (sc - bc)) = Returns (res, None)"
    and "res \<noteq> []"
  shows "NewSegment s segment w = (Returns (0, Some service_ErrSegmentIntersection), w)"
proof -
  have c: "check_cut media segment = Returns None"
    using assms by (simp add: check_cut_ok [of media d segment bc sc])
  have e: "End segment = Some (Add start (sc - bc))"
    using assms by (simp add: End_def)
  show ?thesis
    using assms c e by (simp add: NewSegment_def insert_unprotected_def)
qed

text \<open>
  The spec's scenario: A is stored from second 0 to 60, B from second 30 to 90 is not
  protected and is refused.
\<close>

theorem NewSegment_unprotected_intersection_witness:
  "ScheduleCut mem_schedule (store (mem_with [row 1 0 0 60] [] no_fault)) (at_second 30) (at_second 90)
     = Returns ([row 1 0 0 60], None) \<and>
   NewSegment mem_schedule (new_segment 30 0 60 False) (mem_with [row 1 0 0 60] [] no_fault)
     = (Returns (0, Some service_ErrSegmentIntersection), mem_with [row 1 0 0 60] [] no_fault)"
proof -
  have q: "ScheduleCut mem_schedule (store (mem_with [row 1 0 0 60] [] no_fault)) (at_second 30)
             (Add (at_second 30) (seconds 60 - seconds 0)) = Returns ([row 1 0 0 60], None)"
    by (simp add: mem_defs eng_defs)
  have a: "Add (at_second 30) (seconds 60 - seconds 0) = at_second 90"
    by (simp add: mem_defs eng_defs)
  have "NewSegment mem_schedule (new_segment 30 0 60 False) (mem_with [row 1 0 0 60] [] no_fault)
     = (Returns (0, Some service_ErrSegmentIntersection), mem_with [row 1 0 0 60] [] no_fault)"
    by (rule NewSegment_unprotected_intersection
          [where mid = 1 and media = media_M and d = "seconds 300" and bc = "seconds 0"
             and sc = "seconds 60" and start = "at_second 30" and res = "[row 1 0 0 60]", OF _ _ _ _ _ _ _ _ _ _ q])
       (simp_all add: mem_defs)
  with q a show ?thesis by simp
qed

text \<open>
  Claim C4. A protected segment whose overlap query returns at least one protected
  segment is refused with \<open>service_ErrSegmentIntersection\<close>, and the world is unchanged:
  nothing is deleted, the segment is not saved, neither channel is used. The segments
  a store returns have their start and cuts set (the warning that is logged formats
  them).
\<close>

theorem NewSegment_protected_conflict:
  assumes "Protected segment"
    and "MediaID segment = Some mid" and "mediaStorage s (store w) mid = Inr media"
    and "Duration media = Some d" and "BeginCut segment = Some bc" and "StopCut segment = Some sc"
    and "0 \<le> bc" and "bc \<le> sc" and "sc \<le> d"
    and "Start segment = Some start"
    and "ScheduleCut s (store w) start (Add start (sc - bc)) = Returns (res, None)"
    and "\<exists>x\<in>set res. Protected x"
    and "\<forall>x\<in>set res. End x \<noteq> None"
  shows "NewSegment s segment w = (Returns (0, Some service_ErrSegmentIntersection), w)"
proof -
  have c: "check_cut media segment = Returns None"
    using assms by (simp add: check_cut_ok [of media d segment bc sc])
  have e: "End segment = Some (Add start (sc - bc))"
    using assms by (simp add: End_def)
  have j: "IndexFunc res Protected \<noteq> - 1"
    using assms by (simp add: IndexFunc_found)
  then have "res ! nat (IndexFunc res Protected) \<in> set res"
    using IndexFunc_nth [of res Protected] by simp
  with assms obtain t where t: "End (res ! nat (IndexFunc res Protected)) = Some t"
    by auto
  show ?thesis
    using assms c e j t by (simp add: NewSegment_def insert_protected_def Let_def)
qed

theorem NewSegment_protected_conflict_witness:
  "ScheduleCut mem_schedule (store (mem_with [row 1 0 0 60] [1] no_fault)) (at_second 30) (at_second 90)
     = Returns ([(row 1 0 0 60)\<lparr>Protected := True\<rparr>], None) \<and>
   NewSegment mem_schedule (new_segment 30 0 60 True) (mem_with [row 1 0 0 60] [1] no_fault)
     = (Returns (0, Some service_ErrSegmentIntersection), mem_with [row 1 0 0 60] [1] no_fault)"
proof -
  have q: "ScheduleCut mem_schedule (store (mem_with [row 1 0 0 60] [1] no_fault)) (at_second 30)
             (Add (at_second 30) (seconds 60 - seconds 0))
           = Returns ([(row 1 0 0 60)\<lparr>Protected := True\<rparr>], None)"
    by (simp add: mem_defs eng_defs)
  have a: "Add (at_second 30) (seconds 60 - seconds 0) = at_second 90"
    by (simp add: mem_defs eng_defs)
  have "NewSegment mem_schedule (new_segment 30 0 60 True) (mem_with [row 1 0 0 60] [1] no_fault)
     = (Returns (0, Some service_ErrSegmentIntersection), mem_with [row 1 0 0 60] [1] no_fault)"
    by (rule NewSegment_protected_conflict
          [where mid = 1 and media = media_M and d = "seconds 300" and bc = "seconds 0"
             and sc = "seconds 60" and start = "at_second 30"
             and res = "[(row 1 0 0 60)\<lparr>Protected := True\<rparr>]", OF _ _ _ _ _ _ _ _ _ _ q])
       (simp_all add: mem_defs End_def)
  with q a show ?thesis by simp
qed

text \<open>
  Claim C6. Once the media is found, a cut that is negative or beyond the duration of
  the media is refused with \<open>service_ErrCutOutOfBounds\<close>; otherwise a begin cut after the
  stop cut is refused with \<open>service_ErrBeginAfterStop\<close>. In both cases the world is
  unchanged: nothing is stored and nothing is sent.
\<close>

theorem NewSegment_invalid_cut:
  assumes "MediaID segment = Some mid" and "mediaStorage s (store w) mid = Inr media"
    and "Duration media = Some d" and "BeginCut segment = Some bc" and "StopCut segment = Some sc"
  shows "(bc < 0 \<or> sc < 0 \<or> bc > d \<or> sc > d \<longrightarrow>
           NewSegment s segment w = (Returns (0, Some service_ErrCutOutOfBounds), w)) \<and>
         (\<not> (bc < 0 \<or> sc < 0 \<or> bc > d \<or> sc > d) \<and> bc > sc \<longrightarrow>
           NewSegment s segment w = (Returns (0, Some service_ErrBeginAfterStop), w))"
  using assms
  by (auto simp: NewSegment_def check_cut_def cut_out_of_bounds_def log_cut_args_def)

theorem NewSegment_invalid_cut_witness:
  "NewSegment mem_schedule (new_segment 0 0 301 False) (mem_with [] [] no_fault)
     = (Returns (0, Some service_ErrCutOutOfBounds), mem_with [] [] no_fault) \<and>
   NewSegment mem_schedule (new_segment 0 60 30 True) (mem_with [] [] no_fault)
     = (Returns (0, Some service_ErrBeginAfterStop), mem_with [] [] no_fault)"
  using NewSegment_invalid_cut
          [of "new_segment 0 0 301 False" 1 mem_schedule "mem_with [] [] no_fault" media_M
             "seconds 300" "seconds 0" "seconds 301"]
        NewSegment_invalid_cut
          [of "new_segment 0 60 30 True" 1 mem_schedule "mem_with [] [] no_fault" media_M
             "seconds 300" "seconds 60" "seconds 30"]
  by (simp add: mem_defs)

section \<open>Deleting a segment\<close>

text \<open>
  Claim C7. \<^verbatim>\<open>DeleteSegment\<close> asks for the protection flag first: when that query fails
  the store's delete is not called and nothing is signalled. An error of either store
  call that is (or wraps) \<open>storage_ErrSegmentNotFound\<close> becomes
  \<open>service_ErrSegmentNotFound\<close>, any other one is wrapped with the name of the operation.
  When the delete fails no signal is sent. When it succeeds, exactly one
  protection-changed signal follows it if the flag was set, and none otherwise.
\<close>

theorem DeleteSegment_signal:
  "(st_IsSegmentProtected (schStorage s) (store w) i = Inl err \<longrightarrow>
      DeleteSegment s i w =
        (Some (if errors_Is err storage_ErrSegmentNotFound then service_ErrSegmentNotFound
               else Errorf ''Schedule.DeleteSegment'' err), w)) \<and>
   (st_IsSegmentProtected (schStorage s) (store w) i = Inr isProt \<and>
    st_DeleteSegment (schStorage s) (store w) i = (Some err, st') \<longrightarrow>
      DeleteSegment s i w =
        (Some (if errors_Is err storage_ErrSegmentNotFound then service_ErrSegmentNotFound
               else Errorf ''Schedule.DeleteSegment'' err),
         w\<lparr>store := st', trace := trace w @ [EvDelete i]\<rparr>)) \<and>
   (st_IsSegmentProtected (schStorage s) (store w) i = Inr isProt \<and>
    st_DeleteSegment (schStorage s) (store w) i = (None, st') \<longrightarrow>
      DeleteSegment s i w =
        (None, w\<lparr>store := st',
                  trace := trace w @ [EvDelete i] @ (if isProt then [EvNotify] else [])\<rparr>))"
  by (simp add: DeleteSegment_def call_DeleteSegment_def Notify_def)

theorem DeleteSegment_signal_witness:
  "DeleteSegment mem_schedule 1 (mem_with [row 1 0 0 60, row 2 60 0 60] [1] no_fault)
     = (None, (mem_with [row 2 60 0 60] [] no_fault)
                \<lparr>store := (store (mem_with [row 2 60 0 60] [] no_fault))\<lparr>next_id := 3\<rparr>,
                  trace := [EvDelete 1, EvNotify]\<rparr>) \<and>
   DeleteSegment mem_schedule 2 (mem_with [row 1 0 0 60, row 2 60 0 60] [1] no_fault)
     = (None, (mem_with [row 1 0 0 60] [1] no_fault)
                \<lparr>store := (store (mem_with [row 1 0 0 60] [1] no_fault))\<lparr>next_id := 3\<rparr>,
                  trace := [EvDelete 2]\<rparr>) \<and>
   DeleteSegment mem_schedule 7 (mem_with [row 1 0 0 60, row 2 60 0 60] [1] no_fault)
     = (Some service_ErrSegmentNotFound, mem_with [row 1 0 0 60, row 2 60 0 60] [1] no_fault)"
  using DeleteSegment_signal
          [where s = mem_schedule and w = "mem_with [row 1 0 0 60, row 2 60 0 60] [1] no_fault"
             and i = 1 and isProt = True
             and st' = "store (mem_with [row 2 60 0 60] [] no_fault)\<lparr>next_id := 3\<rparr>"]
        DeleteSegment_signal
          [where s = mem_schedule and w = "mem_with [row 1 0 0 60, row 2 60 0 60] [1] no_fault"
             and i = 2 and isProt = False
             and st' = "store (mem_with [row 1 0 0 60] [1] no_fault)\<lparr>next_id := 3\<rparr>"]
        DeleteSegment_signal
          [where s = mem_schedule and w = "mem_with [row 1 0 0 60, row 2 60 0 60] [1] no_fault"
             and i = 7 and err = storage_ErrSegmentNotFound]
  by (simp add: mem_defs)

section \<open>Accepted insertions\<close>

text \<open>
  Claim C1. In the loop that clears the way for a protected segment, a found segment
  is to be left alone when it only touches the new one, in either direction. The code
  does so for a found segment that ends where the new one starts. For a found segment
  that starts where the new one ends it does not: the second disjunct of the test
  compares the found segment with itself. On the store in memory, the new protected
  segment runs from second 0 to 10 and the stored segment 1 from second 10 to 15;
  segment 1 is deleted. In the mirrored case (stored 0 to 10, new 10 to 20, both times
  in the same location) the stored segment stays.
\<close>

theorem NewSegment_deletes_following_neighbour:
  "End (new_segment 0 0 10 True) = Start (row 1 10 0 5) \<and>
   NewSegment mem_schedule (new_segment 0 0 10 True) (mem_with [row 1 10 0 5] [] no_fault)
     = (Returns (2, None),
        \<lparr>store = \<lparr>rows = [(new_segment 0 0 10 False)\<lparr>ID := Some 2\<rparr>], protected_ids = [2],
                   next_id = 3, fault = no_fault\<rparr>,
         trace = [EvDelete 1, EvSave (new_segment 0 0 10 True), EvProtect 2, EvNotify,
                  EvSend (new_segment 0 0 10 True)]\<rparr>) \<and>
   End (row 1 0 0 10) = Start (new_segment 10 0 10 True) \<and>
   NewSegment mem_schedule (new_segment 10 0 10 True) (mem_with [row 1 0 0 10] [] no_fault)
     = (Returns (2, None),
        \<lparr>store = \<lparr>rows = [row 1 0 0 10, (new_segment 10 0 10 False)\<lparr>ID := Some 2\<rparr>],
                   protected_ids = [2], next_id = 3, fault = no_fault\<rparr>,
         trace = [EvSave (new_segment 10 0 10 True), EvProtect 2, EvNotify,
                  EvSend (new_segment 10 0 10 True)]\<rparr>)"
  by (simp add: mem_defs eng_defs)

text \<open>
  Claim C2. On the path of a segment that is not protected, with nothing overlapping,
  the segment is to be saved first and published afterwards, so that the sink only
  sees what the store holds. The code sends first: when the store refuses the save
  the payload is already out. (The protected path saves first and sends last.)
\<close>

theorem NewSegment_unprotected_sends_before_save:
  "NewSegment mem_schedule (new_segment 0 0 60 False)
      (mem_with [] [] (fault_on OpSaveSegment (Fault 1)))
     = (Returns (0, Some (Errorf ''Schedule.NewSegment'' (Fault 1))),
        (mem_with [] [] (fault_on OpSaveSegment (Fault 1)))
          \<lparr>trace := [EvSend (new_segment 0 0 60 False), EvSave (new_segment 0 0 60 False)]\<rparr>) \<and>
   NewSegment mem_schedule (new_segment 0 0 60 False) (mem_with [] [] no_fault)
     = (Returns (1, None),
        \<lparr>store = \<lparr>rows = [(new_segment 0 0 60 False)\<lparr>ID := Some 1\<rparr>], protected_ids = [],
                   next_id = 2, fault = no_fault\<rparr>,
         trace = [EvSend (new_segment 0 0 60 False), EvSave (new_segment 0 0 60 False)]\<rparr>)"
  by (simp add: mem_defs eng_defs)

text \<open>
  Claim C5. When a protected insertion succeeds with identifier \<open>i\<close>, what it adds to
  the trace is the deletions of the loop (store deletes and the signals of
  \<^verbatim>\<open>DeleteSegment\<close>) and then, in this order, the save of the segment, the protection
  of \<open>i\<close>, the protection-changed signal and the payload on the all-segments channel.
  For every insertion, whatever its branch and its result: if it emitted both a
  signal and a payload, the trace it added ends with the signal immediately followed
  by the payload, and no payload comes earlier.
\<close>

theorem NewSegment_protected_order:
  assumes "NewSegment s segment w = (r, w')"
  shows "(Protected segment \<and> r = Returns (i, None) \<longrightarrow>
            (\<exists>dels. list_all is_displacement dels \<and>
               trace w' = trace w @ dels @ [EvSave segment, EvProtect i, EvNotify, EvSend segment])) \<and>
         (\<exists>new. trace w' = trace w @ new \<and>
            (\<forall>x. EvNotify \<in> set new \<and> EvSend x \<in> set new \<longrightarrow>
               (\<exists>pre. new = pre @ [EvNotify, EvSend x] \<and> (\<forall>y. EvSend y \<notin> set pre))))"
proof
  show "Protected segment \<and> r = Returns (i, None) \<longrightarrow>
            (\<exists>dels. list_all is_displacement dels \<and>
               trace w' = trace w @ dels @ [EvSave segment, EvProtect i, EvNotify, EvSend segment])"
  proof
    assume a: "Protected segment \<and> r = Returns (i, None)"
    from NewSegment_branches [OF assms] a
    obtain start res where "insert_protected s segment start res w = (Returns (i, None), w')"
      using assms by (auto simp: NewSegment_def split: option.splits sum.splits outcome.splits if_splits)
    then show "\<exists>dels. list_all is_displacement dels \<and>
               trace w' = trace w @ dels @ [EvSave segment, EvProtect i, EvNotify, EvSend segment]"
      by (rule insert_protected_success)
  qed
next
  from NewSegment_branches [OF assms]
  consider (same) "w' = w"
    | (unprot) res where "insert_unprotected s segment res w = (r, w')"
    | (prot) start res where "insert_protected s segment start res w = (r, w')"
    by blast
  then show "\<exists>new. trace w' = trace w @ new \<and>
            (\<forall>x. EvNotify \<in> set new \<and> EvSend x \<in> set new \<longrightarrow>
               (\<exists>pre. new = pre @ [EvNotify, EvSend x] \<and> (\<forall>y. EvSend y \<notin> set pre)))"
  proof cases
    case same
    then have "trace w' = trace w @ [] \<and> EvNotify \<notin> set []" by simp
    then show ?thesis by blast
  next
    case unprot
    from insert_unprotected_trace [OF this]
    have "(trace w' = trace w @ [] \<and> EvNotify \<notin> set []) \<or>
          (trace w' = trace w @ [EvSend segment, EvSave segment] \<and>
           EvNotify \<notin> set [EvSend segment, EvSave segment])"
      by simp
    then show ?thesis by blast
  next
    case prot
    from insert_protected_trace [OF this] obtain dels tail where
      d: "list_all is_displacement dels" and t: "trace w' = trace w @ dels @ tail" and
      c: "tail = [] \<or> tail = [EvSave segment] \<or> (\<exists>i. tail = [EvSave segment, EvProtect i]) \<or>
            (\<exists>i. tail = [EvSave segment, EvProtect i, EvNotify, EvSend segment])"
      by blast
    have ns: "\<And>y. EvSend y \<notin> set dels"
      using d by (rule displacement_no_send)
    have "\<forall>x. EvNotify \<in> set (dels @ tail) \<and> EvSend x \<in> set (dels @ tail) \<longrightarrow>
               (\<exists>pre. dels @ tail = pre @ [EvNotify, EvSend x] \<and> (\<forall>y. EvSend y \<notin> set pre))"
    proof (intro allI impI)
      fix x
      assume both: "EvNotify \<in> set (dels @ tail) \<and> EvSend x \<in> set (dels @ tail)"
      with ns c obtain i where
        full: "tail = [EvSave segment, EvProtect i, EvNotify, EvSend segment]" and x: "x = segment"
        by auto
      have "dels @ tail = (dels @ [EvSave segment, EvProtect i]) @ [EvNotify, EvSend x]"
        using full x by simp
      moreover have "\<forall>y. EvSend y \<notin> set (dels @ [EvSave segment, EvProtect i])"
        using ns by simp
      ultimately show "\<exists>pre. dels @ tail = pre @ [EvNotify, EvSend x] \<and> (\<forall>y. EvSend y \<notin> set pre)"
        by blast
    qed
    with t show ?thesis by blast
  qed
qed

theorem NewSegment_protected_order_witness:
  "NewSegment mem_schedule (new_segment 30 0 60 True) (mem_with [row 1 0 0 60] [] no_fault)
     = (Returns (2, None),
        \<lparr>store = \<lparr>rows = [(new_segment 30 0 60 False)\<lparr>ID := Some 2\<rparr>], protected_ids = [2],
                   next_id = 3, fault = no_fault\<rparr>,
         trace = [EvDelete 1, EvSave (new_segment 30 0 60 True), EvProtect 2, EvNotify,
                  EvSend (new_segment 30 0 60 True)]\<rparr>) \<and>
   (\<exists>dels. list_all is_displacement dels \<and>
      [EvDelete 1, EvSave (new_segment 30 0 60 True), EvProtect 2, EvNotify,
       EvSend (new_segment 30 0 60 True)]
      = dels @ [EvSave (new_segment 30 0 60 True), EvProtect 2, EvNotify,
                EvSend (new_segment 30 0 60 True)])"
proof -
  have run: "NewSegment mem_schedule (new_segment 30 0 60 True) (mem_with [row 1 0 0 60] [] no_fault)
     = (Returns (2, None),
        \<lparr>store = \<lparr>rows = [(new_segment 30 0 60 False)\<lparr>ID := Some 2\<rparr>], protected_ids = [2],
                   next_id = 3, fault = no_fault\<rparr>,
         trace = [EvDelete 1, EvSave (new_segment 30 0 60 True), EvProtect 2, EvNotify,
                  EvSend (new_segment 30 0 60 True)]\<rparr>)"
    by (simp add: mem_defs eng_defs)
  from NewSegment_protected_order [OF run, of 2] run show ?thesis
    by (simp add: mem_defs)
qed

section \<open>Nil pointers\<close>

text \<open>
  Claim C10, as stated, fails: the four pointers of the segment are not all
  dereferenced on every call, and a segment with a nil field can be refused with an
  ordinary error. With every field but \<^verbatim>\<open>MediaID\<close> nil and a media that the store does
  not know, the call returns \<open>service_ErrMediaNotFound\<close>; with a nil \<^verbatim>\<open>Start\<close> and a stop
  cut beyond the duration of the media it returns \<open>service_ErrCutOutOfBounds\<close>. Neither
  call panics.
\<close>

theorem NewSegment_nil_field_refused:
  "NewSegment mem_schedule (nil_segment\<lparr>MediaID := Some 2\<rparr>) (mem_with [] [] no_fault)
     = (Returns (0, Some service_ErrMediaNotFound), mem_with [] [] no_fault) \<and>
   NewSegment mem_schedule ((new_segment 0 0 301 False)\<lparr>Start := None\<rparr>)
      (mem_with [] [] no_fault)
     = (Returns (0, Some service_ErrCutOutOfBounds), mem_with [] [] no_fault)"
  by (simp add: mem_defs eng_defs nil_segment_def)

text \<open>
  Claim C10, amended. \<^verbatim>\<open>NewSegment\<close> checks none of its pointers for nil, and each
  dereference panics when it is reached on a nil pointer: \<^verbatim>\<open>MediaID\<close> on every call; the
  duration of the media and the two cuts once the media is found; \<^verbatim>\<open>Start\<close> once the
  cuts are accepted. In these cases no error is returned and the world is as
  before. Conversely, when the four pointers of the segment are set, every media of
  the store has a duration and the store returns segments with identifier, start and
  cuts, the call does not panic.
\<close>

theorem NewSegment_nil_dereference:
  "(MediaID segment = None \<longrightarrow> NewSegment s segment w = (Panics, w)) \<and>
   (MediaID segment = Some mid \<and> mediaStorage s (store w) mid = Inr media \<and>
    (Duration media = None \<or> BeginCut segment = None \<or> StopCut segment = None) \<longrightarrow>
      NewSegment s segment w = (Panics, w)) \<and>
   (MediaID segment = Some mid \<and> mediaStorage s (store w) mid = Inr media \<and>
    Duration media = Some d \<and> BeginCut segment = Some bc \<and> StopCut segment = Some sc \<and>
    0 \<le> bc \<and> bc \<le> sc \<and> sc \<le> d \<and> Start segment = None \<longrightarrow>
      NewSegment s segment w = (Panics, w)) \<and>
   (MediaID segment \<noteq> None \<and> Start segment \<noteq> None \<and> BeginCut segment \<noteq> None \<and>
    StopCut segment \<noteq> None \<and>
    (\<forall>m md. mediaStorage s (store w) m = Inr md \<longrightarrow> Duration md \<noteq> None) \<and>
    (\<forall>a b segs. st_ScheduleCut (schStorage s) (store w) a b = Inr segs \<longrightarrow>
       (\<forall>x\<in>set segs. ID x \<noteq> None \<and> End x \<noteq> None)) \<longrightarrow>
      fst (NewSegment s segment w) \<noteq> Panics)"
proof (intro conjI impI)
  assume "MediaID segment = None"
  then show "NewSegment s segment w = (Panics, w)"
    by (simp add: NewSegment_def)
next
  assume a: "MediaID segment = Some mid \<and> mediaStorage s (store w) mid = Inr media \<and>
    (Duration media = None \<or> BeginCut segment = None \<or> StopCut segment = None)"
  then have "check_cut media segment = Panics"
    by (intro check_cut_nil) simp
  with a show "NewSegment s segment w = (Panics, w)"
    by (simp add: NewSegment_def)
next
  assume a: "MediaID segment = Some mid \<and> mediaStorage s (store w) mid = Inr media \<and>
    Duration media = Some d \<and> BeginCut segment = Some bc \<and> StopCut segment = Some sc \<and>
    0 \<le> bc \<and> bc \<le> sc \<and> sc \<le> d \<and> Start segment = None"
  then have "check_cut media segment = Returns None"
    by (simp add: check_cut_ok [of media d segment bc sc])
  with a show "NewSegment s segment w = (Panics, w)"
    by (simp add: NewSegment_def)
next
  assume a: "MediaID segment \<noteq> None \<and> Start segment \<noteq> None \<and> BeginCut segment \<noteq> None \<and>
    StopCut segment \<noteq> None \<and>
    (\<forall>m md. mediaStorage s (store w) m = Inr md \<longrightarrow> Duration md \<noteq> None) \<and>
    (\<forall>a b segs. st_ScheduleCut (schStorage s) (store w) a b = Inr segs \<longrightarrow>
       (\<forall>x\<in>set segs. ID x \<noteq> None \<and> End x \<noteq> None))"
  then obtain mid start bc sc where
    f: "MediaID segment = Some mid" "Start segment = Some start"
       "BeginCut segment = Some bc" "StopCut segment = Some sc"
    by auto
  then have e: "End segment = Some (Add start (sc - bc))" by (simp add: End_def)
  show "fst (NewSegment s segment w) \<noteq> Panics"
  proof (cases "mediaStorage s (store w) mid")
    case (Inl err)
    with f show ?thesis by (simp add: NewSegment_def)
  next
    case (Inr media)
    with a have "Duration media \<noteq> None" by blast
    then obtain d where d: "Duration media = Some d" by auto
    have cc: "check_cut media segment \<noteq> Panics"
      using f d by (auto simp: check_cut_def cut_out_of_bounds_def log_cut_args_def split: bool.splits)
    show ?thesis
    proof (cases "check_cut media segment")
      case Panics
      with cc show ?thesis by simp
    next
      case (Returns eo)
      show ?thesis
      proof (cases eo)
        case (Some err)
        with Returns Inr f show ?thesis by (simp add: NewSegment_def)
      next
        case None
        show ?thesis
        proof (cases "st_ScheduleCut (schStorage s) (store w) start (Add start (sc - bc))")
          case (Inl err)
          with None Returns Inr f e show ?thesis
            by (simp add: NewSegment_def ScheduleCut_def)
        next
          case segs: (Inr segs)
          with a have wf: "\<forall>x\<in>set segs. ID x \<noteq> None \<and> End x \<noteq> None" by blast
          then have np: "ScheduleCut_loop s (store w) [] segs \<noteq> Panics"
            by (intro ScheduleCut_loop_no_panic) simp
          show ?thesis
          proof (cases "ScheduleCut_loop s (store w) [] segs")
            case Panics
            with np show ?thesis by simp
          next
            case sc: (Returns p)
            obtain res eo' where p: "p = (res, eo')" by (cases p)
            show ?thesis
            proof (cases eo')
              case (Some err)
              with None Returns Inr f e segs sc p show ?thesis
                by (simp add: NewSegment_def ScheduleCut_def)
            next
              case none: None
              have rwf: "\<forall>x\<in>set res. ID x \<noteq> None \<and> End x \<noteq> None"
                using ScheduleCut_loop_fields [of s "store w" "[]" segs res] sc p none wf by simp
              have dl: "fst (delete_loop s start res w) \<noteq> Panics"
                using rwf by (rule delete_loop_no_panic)
              have ip: "fst (insert_protected s segment start res w) \<noteq> Panics"
              proof (cases "IndexFunc res Protected = - 1")
                case True
                with dl show ?thesis
                  by (auto simp: insert_protected_def call_SaveSegment_def call_ProtectSegment_def
                           split: prod.splits outcome.splits option.splits sum.splits)
              next
                case False
                then have "res ! nat (IndexFunc res Protected) \<in> set res"
                  using IndexFunc_nth [of res Protected] by simp
                with rwf have "End (res ! nat (IndexFunc res Protected)) \<noteq> None" by blast
                with False show ?thesis
                  by (auto simp: insert_protected_def Let_def)
              qed
              have iu: "fst (insert_unprotected s segment res w) \<noteq> Panics"
                by (auto simp: insert_unprotected_def split: prod.splits sum.splits)
              from None Returns Inr f e segs sc p none ip iu show ?thesis
                by (simp add: NewSegment_def ScheduleCut_def)
            qed
          qed
        qed
      qed
    qed
  qed
qed

theorem NewSegment_nil_dereference_witness:
  "NewSegment mem_schedule nil_segment (mem_with [] [] no_fault) = (Panics, mem_with [] [] no_fault) \<and>
   NewSegment mem_schedule ((new_segment 0 0 60 False)\<lparr>StopCut := None\<rparr>) (mem_with [] [] no_fault)
     = (Panics, mem_with [] [] no_fault) \<and>
   NewSegment mem_schedule ((new_segment 0 0 60 False)\<lparr>BeginCut := None\<rparr>) (mem_with [] [] no_fault)
     = (Panics, mem_with [] [] no_fault) \<and>
   NewSegment mem_schedule ((new_segment 0 0 60 False)\<lparr>Start := None\<rparr>) (mem_with [] [] no_fault)
     = (Panics, mem_with [] [] no_fault) \<and>
   fst (NewSegment mem_schedule (new_segment 0 0 60 False) (mem_with [] [] no_fault)) \<noteq> Panics"
  using NewSegment_nil_dereference
          [where segment = nil_segment and s = mem_schedule and w = "mem_with [] [] no_fault"]
        NewSegment_nil_dereference
          [where segment = "(new_segment 0 0 60 False)\<lparr>StopCut := None\<rparr>" and s = mem_schedule
             and w = "mem_with [] [] no_fault" and mid = 1 and media = media_M]
        NewSegment_nil_dereference
          [where segment = "(new_segment 0 0 60 False)\<lparr>BeginCut := None\<rparr>" and s = mem_schedule
             and w = "mem_with [] [] no_fault" and mid = 1 and media = media_M]
        NewSegment_nil_dereference
          [where segment = "(new_segment 0 0 60 False)\<lparr>Start := None\<rparr>" and s = mem_schedule
             and w = "mem_with [] [] no_fault" and mid = 1 and media = media_M
             and d = "seconds 300" and bc = "seconds 0" and sc = "seconds 60"]
        NewSegment_nil_dereference
          [where segment = "new_segment 0 0 60 False" and s = mem_schedule
             and w = "mem_with [] [] no_fault"]
  by (simp add: mem_defs nil_segment_def split: if_splits)

section \<open>Errors of the range query\<close>

text \<open>
  Claim C9. Whenever \<^verbatim>\<open>ScheduleCut\<close> returns an error, the list it returns with it is
  empty. This covers both sources of an error: the range query of the store fails, or
  the protection flag of one of the returned segments cannot be fetched (then the
  segments already annotated are dropped).
\<close>

theorem ScheduleCut_error_empty:
  "(ScheduleCut s st start stop = Returns (segs, Some e) \<longrightarrow> segs = []) \<and>
   (st_ScheduleCut (schStorage s) st start stop = Inl err \<longrightarrow>
      ScheduleCut s st start stop = Returns ([], Some (Errorf ''Schedule.ScheduleCut'' err))) \<and>
   (st_ScheduleCut (schStorage s) st start stop = Inr segments \<and>
    (\<forall>x\<in>set segments. ID x \<noteq> None) \<and>
    (\<exists>x\<in>set segments. \<exists>i err'. ID x = Some i \<and>
        st_IsSegmentProtected (schStorage s) st i = Inl err') \<longrightarrow>
      (\<exists>e'. ScheduleCut s st start stop = Returns ([], Some e')))"
proof (intro conjI impI)
  assume "ScheduleCut s st start stop = Returns (segs, Some e)"
  then show "segs = []"
    by (auto simp: ScheduleCut_def split: sum.splits dest: ScheduleCut_loop_error)
next
  assume "st_ScheduleCut (schStorage s) st start stop = Inl err"
  then show "ScheduleCut s st start stop = Returns ([], Some (Errorf ''Schedule.ScheduleCut'' err))"
    by (simp add: ScheduleCut_def)
next
  assume a: "st_ScheduleCut (schStorage s) st start stop = Inr segments \<and>
    (\<forall>x\<in>set segments. ID x \<noteq> None) \<and>
    (\<exists>x\<in>set segments. \<exists>i err'. ID x = Some i \<and>
        st_IsSegmentProtected (schStorage s) st i = Inl err')"
  then have "\<exists>e'. ScheduleCut_loop s st [] segments = Returns ([], Some e')"
    by (intro ScheduleCut_loop_fetch_fails) blast+
  with a show "\<exists>e'. ScheduleCut s st start stop = Returns ([], Some e')"
    by (simp add: ScheduleCut_def)
qed

theorem ScheduleCut_error_empty_witness:
  "ScheduleCut mem_schedule (store (mem_with [row 1 0 0 60] [] (fault_on OpScheduleCut (Fault 5))))
      (at_second 0) (at_second 90)
     = Returns ([], Some (Errorf ''Schedule.ScheduleCut'' (Fault 5))) \<and>
   (\<exists>e'. ScheduleCut mem_schedule
            (store (mem_with [row 1 0 0 60] [] (fault_on OpIsSegmentProtected (Fault 5))))
            (at_second 0) (at_second 90) = Returns ([], Some e'))"
  using ScheduleCut_error_empty
          [where s = mem_schedule and start = "at_second 0" and stop = "at_second 90"
             and st = "store (mem_with [row 1 0 0 60] [] (fault_on OpScheduleCut (Fault 5)))"
             and err = "Fault 5"]
        ScheduleCut_error_empty
          [where s = mem_schedule and start = "at_second 0" and stop = "at_second 90"
             and st = "store (mem_with [row 1 0 0 60] [] (fault_on OpIsSegmentProtected (Fault 5)))"
             and segments = "[row 1 0 0 60]"]
  by (simp add: mem_defs End_def Add_def)

section \<open>The serialised start\<close>

text \<open>
  Claim C8, as the spec states it, fails: for a start on a whole second the layout
  writes no fraction at all, so the text has not the shape
  \<^verbatim>\<open>YYYY-MM-DDThh:mm:ss.ffffff+hh:mm\<close>.
\<close>

theorem MarshalJSON_start_whole_second:
  "MarshalJSON_start (stamped 1704067200000000000 10800) = Returns ''2024-01-01T03:00:00+03:00'' \<and>
   \<not> spec_timestamp_shape ''2024-01-01T03:00:00+03:00''"
  by (simp add: MarshalJSON_start_def stamped_def Format_TimeFormat cal_defs appendInt_def
        digits_of.simps digit_def appendNano_def appendZone_def quo_def
        spec_timestamp_shape_def has_shape_def)

text \<open>
  Claim C8, amended. For a segment whose start is set, in a year from 0 to 9999 and
  a zone within a hundred hours of UTC, the serialised start is the date and the
  clock in the shape \<^verbatim>\<open>YYYY-MM-DDThh:mm:ss\<close>, then the fraction, then the numeric offset
  in the shape \<^verbatim>\<open>+hh:mm\<close>. The fraction is empty when the nanoseconds are zero;
  otherwise it is a point followed by one to nine digits, the last of which is not
  zero.
\<close>

theorem MarshalJSON_start_shape:
  assumes "Start s = Some t"
    and "0 \<le> fst (Date t)" and "fst (Date t) \<le> 9999" and "\<bar>zone_offset t\<bar> < 360000"
  shows "\<exists>dc frac zone.
           MarshalJSON_start s = Returns (dc @ frac @ zone) \<and>
           has_shape ''YYYY-MM-DDThh:mm:ss'' dc \<and>
           (Nanosecond t = 0 \<longrightarrow> frac = []) \<and>
           (Nanosecond t \<noteq> 0 \<longrightarrow>
              (\<exists>k. 1 \<le> k \<and> k \<le> 9 \<and> has_shape (CHR ''.'' # replicate k CHR ''f'') frac \<and>
                   last frac \<noteq> CHR ''0'')) \<and>
           has_shape ''+hh:mm'' zone"
proof -
  let ?dc = "appendInt (fst (Date t)) 4 @ ''-'' @ appendInt (fst (snd (Date t))) 2 @ ''-'' @
      appendInt (snd (snd (Date t))) 2 @ ''T'' @ appendInt (fst (Clock t)) 2 @ '':'' @
      appendInt (fst (snd (Clock t))) 2 @ '':'' @ appendInt (snd (snd (Clock t))) 2"
  let ?frac = "appendNano (Nanosecond t) 9 True"
  let ?zone = "appendZone (zone_offset t)"
  have r: "MarshalJSON_start s = Returns (?dc @ ?frac @ ?zone)"
    using assms(1) by (simp add: MarshalJSON_start_def Format_TimeFormat)
  have dc: "has_shape ''YYYY-MM-DDThh:mm:ss'' ?dc"
    using assms(2,3) by (rule date_clock_shape)
  have z: "Nanosecond t = 0 \<longrightarrow> ?frac = []"
    by (simp add: appendNano_zero)
  have n: "0 \<le> Nanosecond t \<and> Nanosecond t < 1000000000"
    by (simp add: Nanosecond_def)
  then have nz: "Nanosecond t \<noteq> 0 \<longrightarrow>
              (\<exists>k. 1 \<le> k \<and> k \<le> 9 \<and> has_shape (CHR ''.'' # replicate k CHR ''f'') ?frac \<and>
                   last ?frac \<noteq> CHR ''0'')"
    using appendNano_shape [of "Nanosecond t"] by auto
  have zo: "has_shape ''+hh:mm'' ?zone"
    using assms(4) by (rule appendZone_shape)
  from r dc z nz zo show ?thesis by blast
qed

theorem MarshalJSON_start_shape_witness:
  "MarshalJSON_start (stamped 1704067200500000000 10800) = Returns ''2024-01-01T03:00:00.5+03:00'' \<and>
   MarshalJSON_start (stamped 1709251199123456789 (- 16200))
     = Returns ''2024-02-29T19:29:59.123456789-04:30'' \<and>
   (\<exists>dc frac zone.
      MarshalJSON_start (stamped 1704067200500000000 10800) = Returns (dc @ frac @ zone) \<and>
      has_shape ''YYYY-MM-DDThh:mm:ss'' dc \<and>
      (\<exists>k. 1 \<le> k \<and> k \<le> 9 \<and> has_shape (CHR ''.'' # replicate k CHR ''f'') frac \<and>
           last frac \<noteq> CHR ''0'') \<and>
      has_shape ''+hh:mm'' zone)"
proof -
  have e: "MarshalJSON_start (stamped 1704067200500000000 10800) = Returns ''2024-01-01T03:00:00.5+03:00''"
    by (simp add: MarshalJSON_start_def stamped_def Format_TimeFormat cal_defs appendInt_def
        digits_of.simps digit_def appendNano_def appendZone_def quo_def trim_zeros_def trim_dot_def)
  have e2: "MarshalJSON_start (stamped 1709251199123456789 (- 16200))
     = Returns ''2024-02-29T19:29:59.123456789-04:30''"
    by (simp add: MarshalJSON_start_def stamped_def Format_TimeFormat cal_defs appendInt_def
        digits_of.simps digit_def appendNano_def appendZone_def quo_def trim_zeros_def trim_dot_def)
  have "\<exists>dc frac zone.
      MarshalJSON_start (stamped 1704067200500000000 10800) = Returns (dc @ frac @ zone) \<and>
      has_shape ''YYYY-MM-DDThh:mm:ss'' dc \<and>
      (Nanosecond \<lparr>unix_nanos = 1704067200500000000, zone_offset = 10800, location = 1\<rparr> = 0 \<longrightarrow> frac = []) \<and>
      (Nanosecond \<lparr>unix_nanos = 1704067200500000000, zone_offset = 10800, location = 1\<rparr> \<noteq> 0 \<longrightarrow>
        (\<exists>k. 1 \<le> k \<and> k \<le> 9 \<and> has_shape (CHR ''.'' # replicate k CHR ''f'') frac \<and>
           last frac \<noteq> CHR ''0'')) \<and>
      has_shape ''+hh:mm'' zone"
    by (rule MarshalJSON_start_shape) (simp_all add: stamped_def cal_defs)
  moreover have "Nanosecond \<lparr>unix_nanos = 1704067200500000000, zone_offset = 10800, location = 1\<rparr> \<noteq> 0"
    by (simp add: Nanosecond_def)
  ultimately show ?thesis using e e2 by simp
qed

end
